theory Spec2Isabelle
  imports Main "HOL-Library.Word" "HOL-Library.Multiset"
begin

unbundle bit_operations_syntax

section \<open>The client library as seen by the two example programs\<close>

text \<open>
  Both programs (\<^verbatim>\<open>simple_grpc_infer_client.cc\<close>, the synchronous client, and
  \<^verbatim>\<open>simple_grpc_async_infer_client.cc\<close>, the asynchronous one) call into the
  client library through \<^verbatim>\<open>grpc_client.h\<close>. A \<^verbatim>\<open>tc::Error\<close> is either OK or
  carries a message; a call that returns an error and fills an out-parameter is a
  sum, with the error on the left.
\<close>

type_synonym size_t = "64 word"
type_synonym int32_t = "32 word"
type_synonym int64_t = "64 word"
type_synonym uint8_t = "8 word"

datatype tc_error = Error string

text \<open>
  A \<^verbatim>\<open>tc::InferResult\<close>: the status of the request (\<open>None\<close> when
  \<^verbatim>\<open>RequestStatus().IsOk()\<close>), and the three accessors the programs call, each by
  output name.
\<close>

record infer_result =
  request_status :: "tc_error option"
  shape :: "string \<Rightarrow> tc_error + int64_t list"
  datatype_of :: "string \<Rightarrow> tc_error + string"
  raw_data :: "string \<Rightarrow> tc_error + uint8_t list"

section \<open>The asynchronous client: callbacks, counters and waits\<close>

text \<open>
  The shared variables of \<^verbatim>\<open>main\<close> in the asynchronous client, all captured by
  reference by the two callbacks: \<^verbatim>\<open>done_cnt\<close>, \<^verbatim>\<open>repeat_cnt\<close>,
  \<^verbatim>\<open>callback_invoked\<close> and \<^verbatim>\<open>result_placeholder\<close> (a shared pointer, \<open>None\<close>
  when null). \<open>submitted\<close> counts the requests the client library has accepted
  through \<^verbatim>\<open>AsyncInfer\<close>. \<open>trace\<close> is the log of what the program did, in order:
  operations on the one mutex \<^verbatim>\<open>mtx\<close> and the one condition variable \<^verbatim>\<open>cv\<close>,
  writes to the shared variables, and lines printed.
\<close>

datatype shared_var = DoneCnt | CallbackInvoked | ResultPlaceholder

datatype line =
    CallbackCalled size_t             \<comment> \<open>\<^verbatim>\<open>Callback no.<i> is called\<close>\<close>
  | InferenceFailed tc_error          \<comment> \<open>\<^verbatim>\<open>error: Inference failed: <status>\<close>\<close>
  | UnableToRunModel tc_error         \<comment> \<open>\<^verbatim>\<open>error: unable to run model: <err>\<close>\<close>
  | AllDone                           \<comment> \<open>\<^verbatim>\<open>All done\<close>\<close>
  | CntMismatch size_t size_t         \<comment> \<open>\<^verbatim>\<open>Done cnt: <d> does not match repeat cnt: <r>\<close>\<close>
  | GettingDeferred                   \<comment> \<open>\<^verbatim>\<open>Getting results from deferred response\<close>\<close>
  | ClientStats                       \<comment> \<open>the four lines of \<^verbatim>\<open>tc::InferStat\<close>\<close>
  | PassAsyncInfer                    \<comment> \<open>\<^verbatim>\<open>PASS : Async Infer\<close>\<close>

datatype event =
    Lock                              \<comment> \<open>\<^verbatim>\<open>mtx\<close> acquired (a guard is constructed, or a wait wakes)\<close>
  | Unlock                            \<comment> \<open>\<^verbatim>\<open>mtx\<close> released (a guard's scope ends, or a wait blocks)\<close>
  | Notify                            \<comment> \<open>\<^verbatim>\<open>cv.notify_all()\<close>\<close>
  | Write shared_var
  | Cout line
  | Cerr line

record async_state =
  done_cnt :: size_t
  repeat_cnt :: size_t
  callback_invoked :: bool
  result_placeholder :: "infer_result option"
  submitted :: nat
  trace :: "event list"

text \<open>The process either goes on, or has called \<^verbatim>\<open>exit\<close> with a status.\<close>

datatype proc = Running async_state | Exited int async_state

definition emit :: "event \<Rightarrow> async_state \<Rightarrow> async_state" where
  "emit e s = s\<lparr>trace := trace s @ [e]\<rparr>"

text \<open>
  The callback of the \<open>i\<close>-th request of the loop (lines 424 to 440). The guard
  \<^verbatim>\<open>lk\<close> is constructed after the result pointer is wrapped and lives to the end of
  the inner block; \<^verbatim>\<open>cv.notify_all()\<close> follows the block. On a failed request the
  callback prints the status and calls \<^verbatim>\<open>exit(1)\<close> inside the block.
\<close>

definition callback :: "size_t \<Rightarrow> infer_result \<Rightarrow> async_state \<Rightarrow> proc" where
  "callback i result s =
    (let s1 = emit Lock s;
         s2 = emit (Cout (CallbackCalled i)) s1;
         s3 = emit (Write DoneCnt) (s2\<lparr>done_cnt := done_cnt s2 + 1\<rparr>)
     in case request_status result of
          None \<Rightarrow> Running (emit Notify (emit Unlock s3))
        | Some err \<Rightarrow> Exited 1 (emit (Cerr (InferenceFailed err)) s3))"

text \<open>
  The callback of the last request (lines 470 to 480): it defers the result to the
  main thread.
\<close>

definition deferred_callback :: "infer_result \<Rightarrow> async_state \<Rightarrow> proc" where
  "deferred_callback result s =
    (let s1 = emit Lock s;
         s2 = emit (Write CallbackInvoked) (s1\<lparr>callback_invoked := True\<rparr>);
         s3 = emit (Write ResultPlaceholder) (s2\<lparr>result_placeholder := Some result\<rparr>)
     in Running (emit Notify (emit Unlock s3)))"

text \<open>
  \<^verbatim>\<open>client->AsyncInfer(callback, ...)\<close> under \<^verbatim>\<open>FAIL_IF_ERR\<close>: the library either
  accepts the request or returns an error, and on an error the program prints it and
  exits with status 1. The status the library returns is a parameter.
\<close>

definition async_infer :: "tc_error option \<Rightarrow> async_state \<Rightarrow> proc" where
  "async_infer st s =
    (case st of
       None \<Rightarrow> Running (s\<lparr>submitted := Suc (submitted s)\<rparr>)
     | Some err \<Rightarrow> Exited 1 (emit (Cerr (UnableToRunModel err)) s))"

text \<open>
  What the other threads can do while the main thread runs or is blocked: the
  transport invokes the callback of request \<open>i\<close> with a result, it invokes the
  deferring callback with a result, or some thread hands one more request to the
  client. The transport is outside the repository, so nothing here restricts which
  of these happen, how often, or in which order.
\<close>

datatype env = Complete size_t infer_result | CompleteDeferred infer_result | Submit

fun deliver :: "env \<Rightarrow> async_state \<Rightarrow> proc" where
  "deliver (Complete i r) s = callback i r s"
| "deliver (CompleteDeferred r) s = deferred_callback r s"
| "deliver Submit s = async_infer None s"

fun run_env :: "env list \<Rightarrow> async_state \<Rightarrow> proc" where
  "run_env [] s = Running s"
| "run_env (e # es) s =
    (case deliver e s of
       Running s' \<Rightarrow> run_env es s'
     | Exited c s' \<Rightarrow> Exited c s')"

text \<open>
  \<^verbatim>\<open>cv.wait(lk, pred)\<close> is \<^verbatim>\<open>while (!pred()) wait(lk);\<close>, entered with the mutex held.
  Each \<^verbatim>\<open>wait(lk)\<close> releases the mutex, blocks, and re-acquires the mutex when it
  wakes; in between the other threads run. The schedule lists, for each time the
  waiter wakes, what the other threads did while it was blocked (nothing, for a
  spurious wake-up). When the schedule is used up and the predicate is still false
  nothing wakes the waiter any more: the wait never returns, the value \<open>None\<close>. A
  wait that returns gives back the part of the schedule it did not use.
\<close>

fun cv_wait ::
  "(async_state \<Rightarrow> bool) \<Rightarrow> env list list \<Rightarrow> async_state \<Rightarrow> (proc \<times> env list list) option"
where
  "cv_wait pred [] s = (if pred s then Some (Running s, []) else None)"
| "cv_wait pred (batch # rest) s =
    (if pred s then Some (Running s, batch # rest)
     else case run_env batch (emit Unlock s) of
            Running s' \<Rightarrow> cv_wait pred rest (emit Lock s')
          | Exited c s' \<Rightarrow> Some (Exited c s', rest))"

text \<open>The predicate of the first wait (lines 448 to 454).\<close>

definition all_done :: "async_state \<Rightarrow> bool" where
  "all_done s = (if done_cnt s \<ge> repeat_cnt s then True else False)"

text \<open>
  Lines 446 to 455: the block that waits until all callbacks are invoked. The
  \<^verbatim>\<open>unique_lock\<close> acquires the mutex and releases it at the end of the block.
\<close>

definition wait_all :: "env list list \<Rightarrow> async_state \<Rightarrow> (proc \<times> env list list) option" where
  "wait_all sched s =
    (case cv_wait all_done sched (emit Lock s) of
       None \<Rightarrow> None
     | Some (Running s', rest) \<Rightarrow> Some (Running (emit Unlock s'), rest)
     | Some (Exited c s', rest) \<Rightarrow> Some (Exited c s', rest))"

text \<open>Lines 485 to 488: the block that waits for the deferring callback.\<close>

definition wait_one :: "env list list \<Rightarrow> async_state \<Rightarrow> (proc \<times> env list list) option" where
  "wait_one sched s =
    (case cv_wait callback_invoked sched (emit Lock s) of
       None \<Rightarrow> None
     | Some (Running s', rest) \<Rightarrow> Some (Running (emit Unlock s'), rest)
     | Some (Exited c s', rest) \<Rightarrow> Some (Exited c s', rest))"

text \<open>
  The loop of lines 421 to 443: \<^verbatim>\<open>for (size_t i = 0; i < repeat_cnt; i++)\<close>, one
  \<^verbatim>\<open>AsyncInfer\<close> under \<^verbatim>\<open>FAIL_IF_ERR\<close> per round. \<open>st i\<close> is the status the
  library returns for the \<open>i\<close>-th call.
\<close>

function submit_from :: "(size_t \<Rightarrow> tc_error option) \<Rightarrow> size_t \<Rightarrow> async_state \<Rightarrow> proc" where
  "submit_from st i s =
    (if i < repeat_cnt s then
       (case async_infer (st i) s of
          Running s' \<Rightarrow> submit_from st (i + 1) s'
        | Exited c s' \<Rightarrow> Exited c s')
     else Running s)"
  by pat_completeness auto
termination
proof (relation "measure (\<lambda>(st, i, s). unat (repeat_cnt s) - unat i)")
  show "wf (measure (\<lambda>(st, i, s). unat (repeat_cnt s) - unat i))"
    by simp
next
  fix st :: "size_t \<Rightarrow> tc_error option" and i :: size_t and s s' :: async_state
  assume lt: "i < repeat_cnt s" and acc: "async_infer (st i) s = Running s'"
  from acc have same: "repeat_cnt s' = repeat_cnt s"
    by (auto simp: async_infer_def split: option.splits)
  from lt have suc: "unat (i + 1) = Suc (unat i)"
    by unat_arith
  from lt have "unat i < unat (repeat_cnt s)"
    by (simp add: word_less_nat_alt)
  with same suc
  show "((st, i + 1, s'), (st, i, s)) \<in> measure (\<lambda>(st, i, s). unat (repeat_cnt s) - unat i)"
    by simp
qed

declare submit_from.simps [simp del]

text \<open>Lines 456 to 462: the comparison of the two counters after the wait.\<close>

definition check_all_done :: "async_state \<Rightarrow> proc" where
  "check_all_done s =
    (if done_cnt s = repeat_cnt s then Running (emit (Cout AllDone) s)
     else Exited 1 (emit (Cerr (CntMismatch (done_cnt s) (repeat_cnt s))) s))"

text \<open>
  Lines 466 to 482: the flag and the slot are declared (false and null), then the
  last request is handed to the client.
\<close>

definition submit_deferred :: "tc_error option \<Rightarrow> async_state \<Rightarrow> proc" where
  "submit_deferred st s =
    async_infer st (s\<lparr>callback_invoked := False, result_placeholder := None\<rparr>)"

text \<open>
  Lines 490 to 498: the main thread reads the slot. Dereferencing a null
  \<^verbatim>\<open>result_placeholder\<close> is undefined behaviour, the value \<open>None\<close>.
\<close>

definition get_deferred :: "async_state \<Rightarrow> proc option" where
  "get_deferred s =
    (let s1 = emit (Cout GettingDeferred) s
     in case result_placeholder s1 of
          None \<Rightarrow> None
        | Some r \<Rightarrow>
            (case request_status r of
               None \<Rightarrow> Some (Running s1)
             | Some err \<Rightarrow> Some (Exited 1 (emit (Cerr (InferenceFailed err)) s1))))"

text \<open>How a run of \<^verbatim>\<open>main\<close> ends.\<close>

datatype outcome =
    Returns int async_state           \<comment> \<open>\<^verbatim>\<open>main\<close> returns\<close>
  | Exits int async_state             \<comment> \<open>\<^verbatim>\<open>exit\<close> was called\<close>
  | BlocksForever                     \<comment> \<open>a wait never returns\<close>
  | NullDereference                   \<comment> \<open>the null slot is dereferenced\<close>

text \<open>The variables as \<^verbatim>\<open>main\<close> declares them (lines 417 to 420).\<close>

definition async_init :: async_state where
  "async_init =
    \<lparr>done_cnt = 0, repeat_cnt = 1, callback_invoked = False,
     result_placeholder = None, submitted = 0, trace = []\<rparr>"

text \<open>
  \<^verbatim>\<open>main\<close> from line 417 on, started in a state \<open>s0\<close>. \<open>st\<close> and \<open>st'\<close> are the
  statuses the library returns for the requests of the loop and for the last
  request, \<open>pre\<close> is what the other threads do before the main thread takes the
  mutex for the first wait, and \<open>sched\<close> is the schedule of both waits.
\<close>

definition main_from ::
  "(size_t \<Rightarrow> tc_error option) \<Rightarrow> tc_error option \<Rightarrow> env list \<Rightarrow> env list list \<Rightarrow>
   async_state \<Rightarrow> outcome"
where
  "main_from st st' pre sched s0 =
    (case submit_from st 0 s0 of
       Exited c s \<Rightarrow> Exits c s
     | Running s1 \<Rightarrow>
    (case run_env pre s1 of
       Exited c s \<Rightarrow> Exits c s
     | Running s2 \<Rightarrow>
    (case wait_all sched s2 of
       None \<Rightarrow> BlocksForever
     | Some (Exited c s, rest) \<Rightarrow> Exits c s
     | Some (Running s3, rest) \<Rightarrow>
    (case check_all_done s3 of
       Exited c s \<Rightarrow> Exits c s
     | Running s4 \<Rightarrow>
    (case submit_deferred st' s4 of
       Exited c s \<Rightarrow> Exits c s
     | Running s5 \<Rightarrow>
    (case wait_one rest s5 of
       None \<Rightarrow> BlocksForever
     | Some (Exited c s, rest') \<Rightarrow> Exits c s
     | Some (Running s6, rest') \<Rightarrow>
    (case get_deferred s6 of
       None \<Rightarrow> NullDereference
     | Some (Exited c s) \<Rightarrow> Exits c s
     | Some (Running s7) \<Rightarrow>
         Returns 0 (emit (Cout PassAsyncInfer) (emit (Cout ClientStats) s7)))))))))"

definition main_async ::
  "(size_t \<Rightarrow> tc_error option) \<Rightarrow> tc_error option \<Rightarrow> env list \<Rightarrow> env list list \<Rightarrow> outcome"
where
  "main_async st st' pre sched = main_from st st' pre sched async_init"

text \<open>Whether an action of the other threads is a run of the counting callback.\<close>

fun is_complete :: "env \<Rightarrow> bool" where
  "is_complete (Complete i r) = True"
| "is_complete _ = False"

text \<open>
  A result that answers every accessor with an error: the asynchronous client only
  reads the request status.
\<close>

definition no_outputs :: "tc_error option \<Rightarrow> infer_result" where
  "no_outputs st =
    \<lparr>request_status = st, shape = (\<lambda>n. Inl (Error n)), datatype_of = (\<lambda>n. Inl (Error n)),
     raw_data = (\<lambda>n. Inl (Error n))\<rparr>"

text \<open>The state a process is in, running or at its exit.\<close>

fun state_of :: "proc \<Rightarrow> async_state" where
  "state_of (Running s) = s"
| "state_of (Exited c s) = s"

text \<open>
  The discipline of the mutex, read off a trace from the left. \<open>locking h es\<close> starts
  with the mutex held (\<open>h\<close>) or free and gives \<open>None\<close> when the trace acquires a
  held mutex, releases a free one, writes a shared variable while the mutex is free,
  or notifies while it is held; otherwise it tells whether the mutex is held at the
  end.
\<close>

fun locking :: "bool \<Rightarrow> event list \<Rightarrow> bool option" where
  "locking h [] = Some h"
| "locking h (Lock # es) = (if h then None else locking True es)"
| "locking h (Unlock # es) = (if h then locking False es else None)"
| "locking h (Write v # es) = (if h then locking h es else None)"
| "locking h (Notify # es) = (if h then None else locking h es)"
| "locking h (Cout l # es) = locking h es"
| "locking h (Cerr l # es) = locking h es"

text \<open>Nothing is printed while the mutex is held.\<close>

fun quiet_while_held :: "bool \<Rightarrow> event list \<Rightarrow> bool" where
  "quiet_while_held h [] = True"
| "quiet_while_held h (Lock # es) = quiet_while_held True es"
| "quiet_while_held h (Unlock # es) = quiet_while_held False es"
| "quiet_while_held h (Cout l # es) = (\<not> h \<and> quiet_while_held h es)"
| "quiet_while_held h (Cerr l # es) = (\<not> h \<and> quiet_while_held h es)"
| "quiet_while_held h (Write v # es) = quiet_while_held h es"
| "quiet_while_held h (Notify # es) = quiet_while_held h es"

definition mutex :: "async_state \<Rightarrow> bool option" where
  "mutex s = locking False (trace s)"

text \<open>
  A step of the program keeps the discipline: a process that goes on has released
  the mutex, one that exits may hold it.
\<close>

definition disciplined :: "proc \<Rightarrow> bool" where
  "disciplined p =
    (case p of Running s \<Rightarrow> mutex s = Some False | Exited c s \<Rightarrow> mutex s \<noteq> None)"

text \<open>
  The schedule with the submissions of other threads taken out, and what a process
  shows apart from the client's count of submitted requests.
\<close>

fun is_submit :: "env \<Rightarrow> bool" where
  "is_submit Submit = True"
| "is_submit _ = False"

definition without_submits :: "env list list \<Rightarrow> env list list" where
  "without_submits sched = map (filter (\<lambda>e. \<not> is_submit e)) sched"

definition observe_state ::
  "async_state \<Rightarrow> size_t \<times> size_t \<times> bool \<times> infer_result option \<times> event list" where
  "observe_state s =
    (done_cnt s, repeat_cnt s, callback_invoked s, result_placeholder s, trace s)"

fun observe ::
  "proc \<Rightarrow> int option \<times> size_t \<times> size_t \<times> bool \<times> infer_result option \<times> event list" where
  "observe (Running s) = (None, observe_state s)"
| "observe (Exited c s) = (Some c, observe_state s)"

section \<open>Command lines\<close>

text \<open>
  How a program stops before its end: \<^verbatim>\<open>exit\<close> with a status after a report on
  \<^verbatim>\<open>stderr\<close>, an exception nobody catches (\<^verbatim>\<open>std::terminate\<close>), or behaviour the
  language leaves undefined.
\<close>

datatype cpp_exception = Invalid_argument | Out_of_range

datatype report =
    Usage string                      \<comment> \<open>\<^verbatim>\<open>Usage(argv, msg)\<close>: \<^verbatim>\<open>error: <msg>\<close> when \<^verbatim>\<open>msg\<close> is not empty, then the usage text\<close>
  | Failed string tc_error            \<comment> \<open>\<^verbatim>\<open>FAIL_IF_ERR\<close>: \<^verbatim>\<open>error: <MSG>: <err>\<close>\<close>
  | Incorrect string                  \<comment> \<open>another \<^verbatim>\<open>error: ...\<close> line\<close>
  | IncorrectByteSize string nat      \<comment> \<open>\<^verbatim>\<open>error: received incorrect byte size for '<name>': <size>\<close>\<close>

datatype stop =
    Exit int report
  | Uncaught cpp_exception
  | Undefined

subsection \<open>The string functions the parsers call\<close>

text \<open>
  \<^verbatim>\<open>s.find(pat)\<close> gives the first position at which \<^verbatim>\<open>pat\<close> occurs in \<^verbatim>\<open>s\<close>,
  or \<^verbatim>\<open>std::string::npos\<close>, here \<open>None\<close>. \<^verbatim>\<open>s.substr(pos, n)\<close> throws
  \<^verbatim>\<open>std::out_of_range\<close> when \<^verbatim>\<open>pos > s.size()\<close> and otherwise gives the
  characters from \<^verbatim>\<open>pos\<close> on, at most \<^verbatim>\<open>n\<close> of them, all of them for
  \<^verbatim>\<open>npos\<close>.
\<close>

abbreviation npos :: "nat option" where
  "npos \<equiv> None"

fun find_at :: "nat \<Rightarrow> string \<Rightarrow> string \<Rightarrow> nat option" where
  "find_at i pat [] = (if pat = [] then Some i else npos)"
| "find_at i pat (c # cs) =
    (if take (length pat) (c # cs) = pat then Some i else find_at (Suc i) pat cs)"

definition find_str :: "string \<Rightarrow> string \<Rightarrow> nat option" where
  "find_str s pat = find_at 0 pat s"

definition substr :: "string \<Rightarrow> nat \<Rightarrow> nat option \<Rightarrow> stop + string" where
  "substr s pos n =
    (if pos > length s then Inl (Uncaught Out_of_range)
     else Inr (case n of None \<Rightarrow> drop pos s | Some k \<Rightarrow> take k (drop pos s)))"

text \<open>
  \<^verbatim>\<open>std::stoi\<close> and \<^verbatim>\<open>std::stoul\<close> in base 10, as \<^verbatim>\<open>strtol\<close> and
  \<^verbatim>\<open>strtoul\<close> read a number: white space, an optional sign, then the longest run of
  digits; what follows the digits is ignored. No digit throws
  \<^verbatim>\<open>std::invalid_argument\<close>, a value out of the range of the result type throws
  \<^verbatim>\<open>std::out_of_range\<close>. \<^verbatim>\<open>strtoul\<close> negates a value with a minus sign in
  unsigned arithmetic.
\<close>

definition isspace :: "char \<Rightarrow> bool" where
  "isspace c \<longleftrightarrow> c \<in> set [CHR '' '', CHR 0x09, CHR 0x0A, CHR 0x0B, CHR 0x0C, CHR 0x0D]"

definition isdigit :: "char \<Rightarrow> bool" where
  "isdigit c \<longleftrightarrow> (48::nat) \<le> of_char c \<and> of_char c \<le> (57::nat)"

definition digits_value :: "string \<Rightarrow> nat" where
  "digits_value ds = foldl (\<lambda>v c. 10 * v + (of_char c - 48)) 0 ds"

text \<open>The sign (true for minus) and the digits of a number, or \<open>None\<close> without a digit.\<close>

definition scan_number :: "string \<Rightarrow> (bool \<times> string) option" where
  "scan_number s =
    (let t = dropWhile isspace s;
         (neg, u) = (case t of
                       c # cs \<Rightarrow> if c = CHR ''-'' then (True, cs)
                                 else if c = CHR ''+'' then (False, cs) else (False, t)
                     | [] \<Rightarrow> (False, t));
         ds = takeWhile isdigit u
     in if ds = [] then None else Some (neg, ds))"

definition stoi :: "string \<Rightarrow> stop + int" where
  "stoi s =
    (case scan_number s of
       None \<Rightarrow> Inl (Uncaught Invalid_argument)
     | Some (neg, ds) \<Rightarrow>
         (let v = (if neg then - int (digits_value ds) else int (digits_value ds))
          in if v < - (2 ^ 31) \<or> 2 ^ 31 - 1 < v then Inl (Uncaught Out_of_range) else Inr v))"

definition stoul :: "string \<Rightarrow> stop + 64 word" where
  "stoul s =
    (case scan_number s of
       None \<Rightarrow> Inl (Uncaught Invalid_argument)
     | Some (neg, ds) \<Rightarrow>
         (if 2 ^ 64 - 1 < digits_value ds then Inl (Uncaught Out_of_range)
          else Inr (if neg then - word_of_nat (digits_value ds) else word_of_nat (digits_value ds))))"

subsection \<open>getopt\<close>

text \<open>
  What one call of \<^verbatim>\<open>getopt\<close> or \<^verbatim>\<open>getopt_long\<close> returns, with \<^verbatim>\<open>optarg\<close>: an
  option character of the option string, the \<^verbatim>\<open>val\<close> of a long option, or
  \<^verbatim>\<open>'?'\<close> for a word it does not accept. \<open>Overrun\<close> stands for a search of the
  table of long options that finds no entry with the given name: the table in the
  synchronous client has no terminating entry of zeros, so this search reads past
  its end.
\<close>

datatype opt = Short char string | Long int string | Unrecognized | Overrun

text \<open>
  Whether the option string knows a character, and whether the option takes an
  argument (a colon follows it). A colon or a semicolon is never an option.
\<close>

fun lookup_short :: "string \<Rightarrow> char \<Rightarrow> bool option" where
  "lookup_short [] c = None"
| "lookup_short (x # xs) c =
    (if x = c then Some (case xs of y # _ \<Rightarrow> y = CHR '':'' | [] \<Rightarrow> False)
     else lookup_short xs c)"

definition takes_arg :: "string \<Rightarrow> char \<Rightarrow> bool option" where
  "takes_arg optstring c =
    (if c = CHR '':'' \<or> c = CHR '';'' then None else lookup_short optstring c)"

text \<open>The table of long options: name, \<^verbatim>\<open>has_arg\<close>, \<^verbatim>\<open>val\<close>; the search for an exact name.\<close>

type_synonym long_option = "string \<times> bool \<times> int"

fun exact_match :: "long_option list \<Rightarrow> string \<Rightarrow> (bool \<times> int) option" where
  "exact_match [] name = None"
| "exact_match ((n, has_arg, val) # table) name =
    (if n = name then Some (has_arg, val) else exact_match table name)"

text \<open>
  The sequence of values the calls of \<^verbatim>\<open>getopt\<close> return for the words after
  \<^verbatim>\<open>argv[0]\<close>, up to the call that returns -1. \<open>cluster\<close> holds the characters
  of the current word that are still to be read. The option strings of both
  programs start with a letter, so (as the C library does by default) words that
  are not options are skipped, \<^verbatim>\<open>--\<close> ends the options, and a missing
  argument gives \<^verbatim>\<open>'?'\<close>. With a table (\<^verbatim>\<open>getopt_long\<close>) a word that starts
  with \<^verbatim>\<open>--\<close> is a long option, with its argument after \<^verbatim>\<open>=\<close> or in the next
  word. The messages \<^verbatim>\<open>getopt\<close> itself prints are not recorded.
\<close>

definition long_option ::
  "long_option list \<Rightarrow> string \<Rightarrow> string list \<Rightarrow> opt \<times> string list" where
  "long_option table body args =
    (let name = takeWhile (\<lambda>c. c \<noteq> CHR ''='') body;
         given = CHR ''='' \<in> set body;
         val_arg = drop (Suc (length name)) body
     in case exact_match table name of
          None \<Rightarrow> (Overrun, [])
        | Some (has_arg, val) \<Rightarrow>
            (if given then (if has_arg then (Long val val_arg, args) else (Unrecognized, args))
             else if has_arg then
               (case args of [] \<Rightarrow> (Unrecognized, []) | b # rest \<Rightarrow> (Long val b, rest))
             else (Long val [], args)))"

lemma long_option_args:
  "size_list f (snd (long_option table body args)) \<le> size_list f args"
  by (simp add: long_option_def Let_def split: option.splits list.splits)

lemma long_option_measure:
  "size_list (\<lambda>a. Suc (length a)) (snd (long_option table body args))
    < Suc (Suc (n + size_list (\<lambda>a. Suc (length a)) args))"
  using long_option_args [of "\<lambda>a. Suc (length a)" table body args] by simp

function getopt_scan ::
  "string \<Rightarrow> long_option list option \<Rightarrow> string \<Rightarrow> string list \<Rightarrow> opt list" where
  "getopt_scan optstring longopts (c # cs) args =
    (case takes_arg optstring c of
       None \<Rightarrow> Unrecognized # getopt_scan optstring longopts cs args
     | Some False \<Rightarrow> Short c [] # getopt_scan optstring longopts cs args
     | Some True \<Rightarrow>
         (if cs \<noteq> [] then Short c cs # getopt_scan optstring longopts [] args
          else case args of
                 [] \<Rightarrow> [Unrecognized]
               | a # rest \<Rightarrow> Short c a # getopt_scan optstring longopts [] rest))"
| "getopt_scan optstring longopts [] [] = []"
| "getopt_scan optstring longopts [] (a # args) =
    (if a = ''--'' then []
     else if length a < 2 \<or> hd a \<noteq> CHR ''-'' then getopt_scan optstring longopts [] args
     else case longopts of
            Some table \<Rightarrow>
              (if hd (tl a) = CHR ''-'' then
                 fst (long_option table (drop 2 a) args) #
                   getopt_scan optstring longopts [] (snd (long_option table (drop 2 a) args))
               else getopt_scan optstring longopts (tl a) args)
          | None \<Rightarrow> getopt_scan optstring longopts (tl a) args)"
  by pat_completeness auto
termination
  by (relation "measure (\<lambda>(optstring, longopts, cluster, args). length cluster + size_list (\<lambda>a. Suc (length a)) args)")
    (auto simp: long_option_measure)

definition getopt :: "string \<Rightarrow> string list \<Rightarrow> opt list" where
  "getopt optstring args = getopt_scan optstring None [] args"

definition getopt_long :: "string \<Rightarrow> long_option list \<Rightarrow> string list \<Rightarrow> opt list" where
  "getopt_long optstring longopts args = getopt_scan optstring (Some longopts) [] args"

declare getopt_scan.simps [simp del]

declare getopt_scan.simps [simp del]

subsection \<open>The parsers\<close>

text \<open>
  The loop \<^verbatim>\<open>while ((opt = getopt(...)) != -1) switch (opt) ...\<close>: the body of the
  switch runs on each value \<^verbatim>\<open>getopt\<close> returns, until one of them stops the
  program.
\<close>

fun parse_loop :: "(opt \<Rightarrow> 'c \<Rightarrow> stop + 'c) \<Rightarrow> opt list \<Rightarrow> 'c \<Rightarrow> stop + 'c" where
  "parse_loop body [] cfg = Inr cfg"
| "parse_loop body (opt # opts) cfg =
    (case body opt cfg of
       Inl e \<Rightarrow> Inl e
     | Inr cfg' \<Rightarrow> parse_loop body opts cfg')"

text \<open>
  The variables the asynchronous client sets from its command line (lines 153 to
  157), with their initial values; the prefix keeps their names apart from the
  synchronous client's.
\<close>

record async_config =
  a_verbose :: bool
  a_uid :: "64 word"
  a_url :: string
  a_http_headers :: "string \<rightharpoonup> string"
  a_client_timeout :: "32 word"

definition async_defaults :: async_config where
  "async_defaults =
    \<lparr>a_verbose = True, a_uid = 1, a_url = ''localhost:8001'', a_http_headers = Map.empty,
     a_client_timeout = 0\<rparr>"

text \<open>
  The switch of the asynchronous client (lines 162 to 184). For \<^verbatim>\<open>-H\<close> it takes
  the header up to the first colon and the value from one past the end of the
  header, without a check.
\<close>

fun async_switch :: "opt \<Rightarrow> async_config \<Rightarrow> stop + async_config" where
  "async_switch (Short c optarg) cfg =
    (if c = CHR ''v'' then Inr (cfg\<lparr>a_verbose := True\<rparr>)
     else if c = CHR ''u'' then Inr (cfg\<lparr>a_url := optarg\<rparr>)
     else if c = CHR ''i'' then
       (case stoul optarg of Inl e \<Rightarrow> Inl e | Inr n \<Rightarrow> Inr (cfg\<lparr>a_uid := n\<rparr>))
     else if c = CHR ''t'' then
       (case stoi optarg of
          Inl e \<Rightarrow> Inl e
        | Inr n \<Rightarrow> Inr (cfg\<lparr>a_client_timeout := word_of_int n\<rparr>))
     else if c = CHR ''H'' then
       (case substr optarg 0 (find_str optarg '':'') of
          Inl e \<Rightarrow> Inl e
        | Inr header \<Rightarrow>
            (case substr optarg (length header + 1) npos of
               Inl e \<Rightarrow> Inl e
             | Inr v \<Rightarrow> Inr (cfg\<lparr>a_http_headers := (a_http_headers cfg)(header \<mapsto> v)\<rparr>)))
     else Inr cfg)"
| "async_switch Unrecognized cfg = Inl (Exit 1 (Usage []))"
| "async_switch (Long val optarg) cfg = Inr cfg"
| "async_switch Overrun cfg = Inl Undefined"

definition parse_async :: "string list \<Rightarrow> stop + async_config" where
  "parse_async args = parse_loop async_switch (getopt ''vu:i:t:H:'' args) async_defaults"

text \<open>
  The variables the synchronous client sets from its command line (lines 106 to
  118), its table of long options (lines 121 to 125) and its switch (lines 131 to
  204).
\<close>

datatype grpc_compression_algorithm =
  GRPC_COMPRESS_NONE | GRPC_COMPRESS_DEFLATE | GRPC_COMPRESS_GZIP

record sync_config =
  verbose :: bool
  url :: string
  http_headers :: "string \<rightharpoonup> string"
  client_timeout :: "32 word"
  use_ssl :: bool
  root_certificates :: string
  private_key :: string
  certificate_chain :: string
  compression_algorithm :: grpc_compression_algorithm
  test_use_cached_channel :: bool
  use_cached_channel :: bool
  uid :: "64 word"

definition sync_defaults :: sync_config where
  "sync_defaults =
    \<lparr>verbose = False, url = ''localhost:8001'', http_headers = Map.empty, client_timeout = 0,
     use_ssl = False, root_certificates = [], private_key = [], certificate_chain = [],
     compression_algorithm = GRPC_COMPRESS_NONE, test_use_cached_channel = False,
     use_cached_channel = True, uid = 1\<rparr>"

definition long_options :: "long_option list" where
  "long_options =
    [(''ssl'', False, 0), (''root-certificates'', True, 1), (''private-key'', True, 2),
     (''certificate-chain'', True, 3)]"

definition header_msg :: string where
  "header_msg = ''HTTP header specified incorrectly. Must be formmated as '' @
     [CHR 0x27] @ ''Header:Value'' @ [CHR 0x27]"

definition compression_msg :: string where
  "compression_msg = ''unsupported compression algorithm specified... only '' @
     [CHR 0x27] @ ''deflate'' @ [CHR 0x27] @ '', '' @ [CHR 0x27] @ ''gzip'' @ [CHR 0x27] @
     '' and '' @ [CHR 0x27] @ ''none'' @ [CHR 0x27] @ '' are supported.''"

definition cached_channel_msg :: string where
  "cached_channel_msg = ''need to specify true or false for use_cached_channel''"

fun sync_switch :: "opt \<Rightarrow> sync_config \<Rightarrow> stop + sync_config" where
  "sync_switch (Long val optarg) cfg =
    (if val = 0 then Inr (cfg\<lparr>use_ssl := True\<rparr>)
     else if val = 1 then Inr (cfg\<lparr>root_certificates := optarg\<rparr>)
     else if val = 2 then Inr (cfg\<lparr>private_key := optarg\<rparr>)
     else if val = 3 then Inr (cfg\<lparr>certificate_chain := optarg\<rparr>)
     else Inr cfg)"
| "sync_switch (Short c optarg) cfg =
    (if c = CHR ''v'' then Inr (cfg\<lparr>verbose := True\<rparr>)
     else if c = CHR ''u'' then Inr (cfg\<lparr>url := optarg\<rparr>)
     else if c = CHR ''i'' then
       (case stoul optarg of Inl e \<Rightarrow> Inl e | Inr n \<Rightarrow> Inr (cfg\<lparr>uid := n\<rparr>))
     else if c = CHR ''t'' then
       (case stoi optarg of
          Inl e \<Rightarrow> Inl e
        | Inr n \<Rightarrow> Inr (cfg\<lparr>client_timeout := word_of_int n\<rparr>))
     else if c = CHR ''H'' then
       (case substr optarg 0 (find_str optarg '':'') of
          Inl e \<Rightarrow> Inl e
        | Inr header \<Rightarrow>
            (if length header = length optarg \<or> header = [] then Inl (Exit 1 (Usage header_msg))
             else case substr optarg (length header + 1) npos of
                    Inl e \<Rightarrow> Inl e
                  | Inr v \<Rightarrow> Inr (cfg\<lparr>http_headers := (http_headers cfg)(header \<mapsto> v)\<rparr>)))
     else if c = CHR ''C'' then
       (if optarg = ''deflate'' then Inr (cfg\<lparr>compression_algorithm := GRPC_COMPRESS_DEFLATE\<rparr>)
        else if optarg = ''gzip'' then Inr (cfg\<lparr>compression_algorithm := GRPC_COMPRESS_GZIP\<rparr>)
        else if optarg = ''none'' then Inr (cfg\<lparr>compression_algorithm := GRPC_COMPRESS_NONE\<rparr>)
        else Inl (Exit 1 (Usage compression_msg)))
     else if c = CHR ''c'' then
       (let cfg' = cfg\<lparr>test_use_cached_channel := True\<rparr>
        in if find_str optarg ''false'' \<noteq> npos then Inr (cfg'\<lparr>use_cached_channel := False\<rparr>)
           else if find_str optarg ''true'' \<noteq> npos then Inr (cfg'\<lparr>use_cached_channel := True\<rparr>)
           else Inl (Exit 1 (Usage cached_channel_msg)))
     else Inr cfg)"
| "sync_switch Unrecognized cfg = Inl (Exit 1 (Usage []))"
| "sync_switch Overrun cfg = Inl Undefined"

definition parse_sync :: "string list \<Rightarrow> stop + sync_config" where
  "parse_sync args =
    parse_loop sync_switch (getopt_long ''vu:i:t:H:C:c:'' long_options args) sync_defaults"

section \<open>The synchronous client: validation of the result\<close>

text \<open>
  \<^verbatim>\<open>FAIL_IF_ERR(X, MSG)\<close>: when the call returns an error, the program prints it
  and exits with status 1.
\<close>

definition fail_if_err :: "tc_error + 'a \<Rightarrow> string \<Rightarrow> stop + 'a" where
  "fail_if_err x msg =
    (case x of Inl err \<Rightarrow> Inl (Exit 1 (Failed msg err)) | Inr v \<Rightarrow> Inr v)"

definition quoted :: "string \<Rightarrow> string" where
  "quoted name = [CHR 0x27] @ name @ [CHR 0x27]"

text \<open>\<^verbatim>\<open>ValidateShapeAndDatatype\<close> of the synchronous client (lines 48 to 71).\<close>

definition ValidateShapeAndDatatype :: "string \<Rightarrow> infer_result \<Rightarrow> stop + unit" where
  "ValidateShapeAndDatatype name result =
    (case fail_if_err (shape result name) (''unable to get shape for '' @ quoted name) of
       Inl e \<Rightarrow> Inl e
     | Inr shp \<Rightarrow>
         if length shp \<noteq> 2 \<or> shp ! 0 \<noteq> 1 \<or> shp ! 1 \<noteq> 16 then
           Inl (Exit 1 (Incorrect (''received incorrect shapes for '' @ quoted name)))
         else
           (case fail_if_err (datatype_of result name)
                   (''unable to get datatype for '' @ quoted name) of
              Inl e \<Rightarrow> Inl e
            | Inr dt \<Rightarrow>
                if dt \<noteq> ''INT32'' then
                  Inl (Exit 1 (Incorrect
                    (''received incorrect datatype for '' @ quoted name @ '': '' @ dt)))
                else Inr ()))"

text \<open>
  The two input vectors of \<^verbatim>\<open>main\<close> (lines 239 to 244): \<^verbatim>\<open>input1_data\<close> is 16
  ones, \<^verbatim>\<open>input0_data\<close> is the literal of line 244.
\<close>

definition input1_data :: "int32_t list" where
  "input1_data = replicate 16 1"

definition input0_data :: "int32_t list" where
  "input0_data =
    [151647, 198, 56568, 99491, 99794, 100717, 103954, 105484, 3837, 100431, 105182,
     102889, 100348, 108167, 3837, 35946, 102889, 101622, 57218, 56568, 105051, 198,
     100780, 105924, 510, 90476, 100, 62922, 5122, 70108, 198, 74577, 112, 100820,
     5122, 17, 17, 198, 90476, 100, 33983, 5122, 118375, 99696, 112425, 5373, 110576,
     100668, 5373, 108295, 33108, 17340, 105292, 198, 4891, 244, 250, 99352, 5122,
     109157, 11, 100364, 99204, 99629, 107691, 58143, 101622, 93149, 30709, 44793,
     64205, 198, 33424, 101, 101738, 5122, 105905, 101070, 3837, 105905, 101070, 3837,
     111686, 100397, 107691, 198, 112735, 100470, 106466, 87752, 104787, 104272, 198,
     49602, 252, 58364, 30534, 101137, 100780, 105924, 198, 6567, 233, 240, 99631,
     104787, 100390, 104013, 5373, 57621, 5373, 99602, 5373, 99599, 5373, 110569, 5373,
     73218, 5373, 105358, 5373, 101091, 78556, 108380, 198, 49602, 252, 58364, 43815,
     100645, 101137, 105492, 104773, 100376, 3837, 101137, 109157, 198, 6567, 233, 240,
     99631, 37029, 105439, 5373, 118711, 5373, 105905, 5373, 112883, 9370, 110376, 715,
     220, 113540, 112451, 101622, 17714, 2073, 102557, 16872, 88774, 220, 102762,
     112451, 99681, 100474, 99669, 17714, 2073, 99681, 105666, 88774, 220, 103929,
     104787, 110098, 36993, 99792, 36556, 53393, 3837, 117242, 99165, 107971, 104336,
     8997, 220, 112735, 100470, 106466, 151647, 33108, 151648, 104186, 109504, 198,
     88940, 121, 99475, 55338, 151647, 33108, 151648, 102069, 9370, 109504, 198, 56568,
     100645, 100372, 101892, 100431, 9370, 102193, 43815, 71817, 105051, 1773, 62244,
     101068, 45181, 16872, 110590, 101051, 102349, 37945, 36587, 1036, 102557, 16872,
     105073, 3837, 35946, 99744, 99222, 101222, 32945, 28311, 220, 100348, 108167,
     115568, 101141, 99816, 103982, 103976, 198, 220, 100348, 108167, 101909, 104130,
     59074, 99821, 99417, 3837, 103046, 18493, 104130, 59074, 102829, 1773, 99204,
     99681, 100474, 99669, 102857, 3837, 100119, 82894, 104130, 59074, 3837, 99663,
     99466, 100638, 103985, 8997, 220, 100348, 108167, 107204, 104158, 99681, 100474,
     99669, 105633, 99424, 3837, 99246, 101952, 99445, 30709, 100422, 104989, 26288,
     102530, 3837, 99601, 99445, 30709, 100422, 99486, 100348, 31207, 102073, 108001,
     8997, 220, 100348, 108167, 18493, 104130, 59074, 116391, 101243, 3837, 99999,
     99392, 99555, 104130, 59074, 104006, 44793, 64205, 3837, 100671, 101622, 56007,
     3837, 100348, 108167, 36993, 104584, 101883, 30709, 44793, 64205, 89012, 101622,
     8997, 220, 100348, 108167, 99392, 99555, 104130, 59074, 104006, 44793, 64205,
     8997, 105048, 105267, 87752, 105051, 19793, 26355, 3837, 45912, 100348, 31207,
     102073, 104283, 75768, 510, 89982, 63836, 5122, 104044, 104130, 59074, 108432,
     101037, 94432, 220, 100348, 108167, 5122, 42140, 99757, 102557, 101373, 104329,
     3837, 104044, 104130, 59074, 101109, 100416, 8997, 89982, 63836, 5122, 105043,
     100165, 94432, 220, 100348, 108167, 5122, 35946, 99882, 100348, 108167, 3837,
     20412, 104130, 59074, 9370, 99821, 99417, 1773, 97611, 104559, 20412, 109270,
     100147, 34718, 101318, 90395, 89012, 102464, 99553, 85106, 116211, 8997, 89982,
     63836, 5122, 104888, 102328, 198, 220, 100348, 108167, 5122, 102557, 16872,
     118271, 117070, 8997, 89982, 63836, 5122, 107733, 100625, 101037, 94432, 220,
     100348, 108167, 5122, 100625, 11319, 110985, 114056, 3837, 100707, 65676, 20412,
     99569, 44290, 28404, 17992, 94432, 89982, 63836, 5122, 107733, 104730, 59074,
     103976, 101037, 198, 220, 100348, 108167, 5122, 49187, 99608, 24562, 97084,
     102534, 104730, 59074, 102207, 34187, 52510, 99811, 3837, 99744, 52183, 99601,
     100007, 34187, 8997, 89982, 63836, 5122, 56568, 104067, 106428, 198, 220, 100348,
     108167, 5122, 104786, 101254, 109270, 15946, 37945, 56007, 104139, 111728, 102557,
     101373, 101037, 94432, 89982, 63836, 5122, 99445, 30709, 100422, 198, 220, 100348,
     108167, 5122, 102557, 16872, 100720, 99445, 26288, 102530, 101037, 11319, 42411,
     103933, 97611, 108001, 6313, 198, 151648]"

text \<open>
  \<^verbatim>\<open>*(output_data + i)\<close>: the \<open>i\<close>-th \<^verbatim>\<open>int32_t\<close> of the raw bytes of an output,
  read as the little-endian machines the client runs on read it.
\<close>

definition int32_at :: "uint8_t list \<Rightarrow> nat \<Rightarrow> int32_t" where
  "int32_at buf i =
    ucast (buf ! (4 * i)) OR push_bit 8 (ucast (buf ! (4 * i + 1))) OR
    push_bit 16 (ucast (buf ! (4 * i + 2))) OR push_bit 24 (ucast (buf ! (4 * i + 3)))"

text \<open>
  The loop of lines 337 to 351, from round \<open>i\<close> on: the sum is compared before the
  difference, and the first mismatch ends the program.
\<close>

function compare_from ::
  "int32_t list \<Rightarrow> int32_t list \<Rightarrow> uint8_t list \<Rightarrow> uint8_t list \<Rightarrow> nat \<Rightarrow> stop + unit" where
  "compare_from in0 in1 output0_data output1_data i =
    (if i < 16 then
       (if in0 ! i + in1 ! i \<noteq> int32_at output0_data i then
          Inl (Exit 1 (Incorrect ''incorrect sum''))
        else if in0 ! i - in1 ! i \<noteq> int32_at output1_data i then
          Inl (Exit 1 (Incorrect ''incorrect difference''))
        else compare_from in0 in1 output0_data output1_data (i + 1))
     else Inr ())"
  by pat_completeness auto
termination
  by (relation "measure (\<lambda>(in0, in1, output0_data, output1_data, i). 16 - i)") auto

declare compare_from.simps [simp del]

text \<open>
  Lines 308 to 374 of \<^verbatim>\<open>main\<close> for one result: the value \<open>Inr ()\<close> is the line
  \<^verbatim>\<open>PASS : Infer\<close>. The calls between the loop and that line print and do not
  end the program.
\<close>

definition main_validate :: "infer_result \<Rightarrow> stop + unit" where
  "main_validate results =
    (case ValidateShapeAndDatatype ''OUTPUT0'' results of
       Inl e \<Rightarrow> Inl e
     | Inr _ \<Rightarrow>
    (case ValidateShapeAndDatatype ''OUTPUT1'' results of
       Inl e \<Rightarrow> Inl e
     | Inr _ \<Rightarrow>
    (case fail_if_err (raw_data results ''OUTPUT0'')
            (''unable to get result data for '' @ quoted ''OUTPUT0'') of
       Inl e \<Rightarrow> Inl e
     | Inr output0_data \<Rightarrow>
         if length output0_data \<noteq> 64 then
           Inl (Exit 1 (IncorrectByteSize ''OUTPUT0'' (length output0_data)))
         else
    (case fail_if_err (raw_data results ''OUTPUT1'')
            (''unable to get result data for '' @ quoted ''OUTPUT1'') of
       Inl e \<Rightarrow> Inl e
     | Inr output1_data \<Rightarrow>
         if length output1_data \<noteq> 64 then
           Inl (Exit 1 (IncorrectByteSize ''OUTPUT1'' (length output1_data)))
         else compare_from input0_data input1_data output0_data output1_data 0))))"

text \<open>The four bytes of an \<^verbatim>\<open>int32_t\<close> in memory, and a result that carries given outputs.\<close>

definition int32_bytes :: "int32_t \<Rightarrow> uint8_t list" where
  "int32_bytes w = [ucast w, ucast (drop_bit 8 w), ucast (drop_bit 16 w), ucast (drop_bit 24 w)]"

definition int32_outputs :: "int32_t list \<Rightarrow> int32_t list \<Rightarrow> infer_result" where
  "int32_outputs out0 out1 =
    \<lparr>request_status = None,
     shape = (\<lambda>name. if name = ''OUTPUT0'' \<or> name = ''OUTPUT1'' then Inr [1, 16]
                      else Inl (Error name)),
     datatype_of = (\<lambda>name. if name = ''OUTPUT0'' \<or> name = ''OUTPUT1'' then Inr ''INT32''
                      else Inl (Error name)),
     raw_data = (\<lambda>name. if name = ''OUTPUT0'' then Inr (concat (map int32_bytes out0))
                      else if name = ''OUTPUT1'' then Inr (concat (map int32_bytes out1))
                      else Inl (Error name))\<rparr>"

section \<open>Properties of the asynchronous client\<close>

subsection \<open>What one run of a callback does\<close>

lemma callback_ok:
  "request_status r = None \<Longrightarrow>
    callback i r s =
      Running (s\<lparr>done_cnt := done_cnt s + 1,
        trace := trace s @ [Lock, Cout (CallbackCalled i), Write DoneCnt, Unlock, Notify]\<rparr>)"
  by (simp add: callback_def emit_def)

lemma callback_failed:
  "request_status r = Some err \<Longrightarrow>
    callback i r s =
      Exited 1 (s\<lparr>done_cnt := done_cnt s + 1,
        trace := trace s @ [Lock, Cout (CallbackCalled i), Write DoneCnt,
                            Cerr (InferenceFailed err)]\<rparr>)"
  by (simp add: callback_def emit_def)

lemma deferred_callback_eq:
  "deferred_callback r s =
      Running (s\<lparr>callback_invoked := True, result_placeholder := Some r,
        trace := trace s @ [Lock, Write CallbackInvoked, Write ResultPlaceholder, Unlock, Notify]\<rparr>)"
  by (simp add: deferred_callback_def emit_def)

subsection \<open>Counters under callbacks, submissions and waits\<close>

lemma emit_fields [simp]:
  "done_cnt (emit e s) = done_cnt s"
  "repeat_cnt (emit e s) = repeat_cnt s"
  "callback_invoked (emit e s) = callback_invoked s"
  "result_placeholder (emit e s) = result_placeholder s"
  "submitted (emit e s) = submitted s"
  "trace (emit e s) = trace s @ [e]"
  by (simp_all add: emit_def)

lemma cv_wait_returns_pred:
  "cv_wait pred sched s = Some (Running s', rest) \<Longrightarrow> pred s'"
proof (induction sched arbitrary: s)
  case Nil
  then show ?case by (simp split: if_splits)
next
  case (Cons batch sched)
  show ?case
  proof (cases "pred s")
    case True
    with Cons.prems show ?thesis by simp
  next
    case False
    with Cons.prems Cons.IH show ?thesis
      by (auto split: proc.splits)
  qed
qed

lemma cv_wait_immediate:
  "pred s \<Longrightarrow> cv_wait pred sched s = Some (Running s, sched)"
  by (cases sched) simp_all




lemma all_done_iff: "all_done s \<longleftrightarrow> repeat_cnt s \<le> done_cnt s"
  by (simp add: all_done_def)

lemma wait_all_returns:
  "wait_all sched s = Some (Running s', rest) \<Longrightarrow> repeat_cnt s' \<le> done_cnt s'"
  by (auto simp: wait_all_def all_done_iff split: option.splits proc.splits prod.splits
      dest!: cv_wait_returns_pred)






subsection \<open>Repeated deliveries for one request\<close>

lemma replicate_complete_ok:
  "request_status r = None \<Longrightarrow>
    \<exists>s'. run_env (replicate k (Complete i r)) s = Running s' \<and>
      done_cnt s' = done_cnt s + of_nat k \<and>
      count_list (trace s') (Cout (CallbackCalled i)) =
        count_list (trace s) (Cout (CallbackCalled i)) + k"
proof (induction k arbitrary: s)
  case 0
  then show ?case by simp
next
  case (Suc k)
  let ?t = "s\<lparr>done_cnt := done_cnt s + 1,
        trace := trace s @ [Lock, Cout (CallbackCalled i), Write DoneCnt, Unlock, Notify]\<rparr>"
  from Suc.IH [OF Suc.prems, of ?t] obtain s' where
    "run_env (replicate k (Complete i r)) ?t = Running s'"
    "done_cnt s' = done_cnt ?t + of_nat k"
    "count_list (trace s') (Cout (CallbackCalled i)) =
        count_list (trace ?t) (Cout (CallbackCalled i)) + k"
    by blast
  with Suc.prems show ?case
    by (simp add: callback_ok)
qed

text \<open>
  C2, as stated, fails: the counting callback has no guard per request and no
  error to signal. With the one request of the loop submitted, a second delivery for
  request 0 runs the callback a second time: both runs print their line, both
  increment \<^verbatim>\<open>done_cnt\<close>, which ends at 2 against a \<^verbatim>\<open>repeat_cnt\<close> of 1, and
  the process goes on.
\<close>

theorem second_delivery_runs_callback_again:
  "run_env [Complete 0 (no_outputs None), Complete 0 (no_outputs None)]
      (async_init\<lparr>submitted := 1\<rparr>) =
    Running
      \<lparr>done_cnt = 2, repeat_cnt = 1, callback_invoked = False, result_placeholder = None,
       submitted = 1,
       trace = [Lock, Cout (CallbackCalled 0), Write DoneCnt, Unlock, Notify,
                Lock, Cout (CallbackCalled 0), Write DoneCnt, Unlock, Notify]\<rparr>"
  by (simp add: callback_ok no_outputs_def async_init_def)

text \<open>
  C2, amended. The callback runs once per delivery: \<open>k\<close> deliveries for the same
  request with an OK result print its line \<open>k\<close> times and add \<open>k\<close> to
  \<^verbatim>\<open>done_cnt\<close>, and none signals an error. The one check of the counters is the
  main thread's after the wait, which exits with status 1 when they differ.
\<close>

theorem callback_counts_every_delivery:
  "(request_status r = None \<longrightarrow>
      (\<exists>s'. run_env (replicate k (Complete i r)) s = Running s' \<and>
        done_cnt s' = done_cnt s + of_nat k \<and>
        count_list (trace s') (Cout (CallbackCalled i)) =
          count_list (trace s) (Cout (CallbackCalled i)) + k))
   \<and> (done_cnt s \<noteq> repeat_cnt s \<longrightarrow>
        check_all_done s = Exited 1 (emit (Cerr (CntMismatch (done_cnt s) (repeat_cnt s))) s))"
  using replicate_complete_ok [of r k i s] by (simp add: check_all_done_def)

theorem callback_counts_every_delivery_witness:
  "(\<exists>s'. run_env [Complete 0 (no_outputs None), Complete 0 (no_outputs None)] async_init
        = Running s' \<and> done_cnt s' = 2 \<and>
        count_list (trace s') (Cout (CallbackCalled 0)) = 2)
   \<and> check_all_done (async_init\<lparr>done_cnt := 2\<rparr>) =
        Exited 1 (emit (Cerr (CntMismatch 2 1)) (async_init\<lparr>done_cnt := 2\<rparr>))"
  using callback_counts_every_delivery [of "no_outputs None" 2 0 async_init]
    callback_counts_every_delivery [of "no_outputs None" 0 0 "async_init\<lparr>done_cnt := 2\<rparr>"]
  by (simp add: no_outputs_def async_init_def numeral_2_eq_2)

subsection \<open>A wait with a request that is not completed\<close>

lemma deliver_idle:
  "\<not> is_complete e \<Longrightarrow>
    \<exists>s'. deliver e s = Running s' \<and> done_cnt s' = done_cnt s \<and> repeat_cnt s' = repeat_cnt s"
  by (cases e) (simp_all add: deferred_callback_eq async_infer_def)

lemma run_env_idle:
  "\<forall>e\<in>set evs. \<not> is_complete e \<Longrightarrow>
    \<exists>s'. run_env evs s = Running s' \<and> done_cnt s' = done_cnt s \<and> repeat_cnt s' = repeat_cnt s"
proof (induction evs arbitrary: s)
  case Nil
  then show ?case by simp
next
  case (Cons e evs)
  then have "\<not> is_complete e" by simp
  from deliver_idle [OF this, of s] obtain t where
    t: "deliver e s = Running t" "done_cnt t = done_cnt s" "repeat_cnt t = repeat_cnt s"
    by blast
  from Cons have "\<forall>e\<in>set evs. \<not> is_complete e" by simp
  from Cons.IH [OF this, of t] t show ?case
    by auto
qed

lemma cv_wait_idle_prefix:
  "\<not> all_done s \<Longrightarrow> \<forall>b\<in>set idle. \<forall>e\<in>set b. \<not> is_complete e \<Longrightarrow>
    \<exists>s'. cv_wait all_done (idle @ later) s = cv_wait all_done later s' \<and>
      cv_wait all_done idle s = None \<and>
      done_cnt s' = done_cnt s \<and> repeat_cnt s' = repeat_cnt s"
proof (induction idle arbitrary: s)
  case Nil
  then show ?case by (auto intro: exI [of _ s])
next
  case (Cons a idle)
  then have "\<forall>e\<in>set a. \<not> is_complete e" by simp
  from run_env_idle [OF this, of "emit Unlock s"] obtain t where
    t: "run_env a (emit Unlock s) = Running t" "done_cnt t = done_cnt s"
       "repeat_cnt t = repeat_cnt s"
    by auto
  with Cons.prems have nd: "\<not> all_done (emit Lock t)"
    by (simp add: all_done_iff)
  from Cons.prems have "\<forall>b\<in>set idle. \<forall>e\<in>set b. \<not> is_complete e" by simp
  from Cons.IH [OF nd this] t Cons.prems(1) show ?case
    by auto
qed




subsection \<open>Failed requests\<close>

text \<open>
  C4, as stated, fails: a failed request is not handed on as data with the
  decision left to the caller. With the one request submitted and its completion
  delivered with a failed status during the first wait, the counting callback
  calls \<^verbatim>\<open>exit(1)\<close> itself: the run of \<^verbatim>\<open>main\<close> ends with status 1 inside the
  callback, with \<^verbatim>\<open>mtx\<close> still held and without a notification, and the wait
  never returns to the main thread.
\<close>

theorem failed_completion_ends_process:
  "main_async (\<lambda>i. None) None []
      [[Complete 0 (no_outputs (Some (Error ''unavailable'')))], []] =
    Exits 1
      \<lparr>done_cnt = 1, repeat_cnt = 1, callback_invoked = False, result_placeholder = None,
       submitted = 1,
       trace = [Lock, Unlock, Lock, Cout (CallbackCalled 0), Write DoneCnt,
                Cerr (InferenceFailed (Error ''unavailable''))]\<rparr>
   \<and> locking False [Lock, Unlock, Lock, Cout (CallbackCalled 0), Write DoneCnt,
                Cerr (InferenceFailed (Error ''unavailable''))] = Some True
   \<and> Notify \<notin> set [Lock, Unlock, Lock, Cout (CallbackCalled 0), Write DoneCnt,
                Cerr (InferenceFailed (Error ''unavailable''))]"
  by (simp add: main_async_def main_from_def submit_from.simps async_init_def async_infer_def
      wait_all_def all_done_iff callback_failed no_outputs_def emit_def)

text \<open>
  C4, amended. For a failed request nothing is submitted again, and the status
  reaches the code of the callback unchanged. The counting callback counts the
  completion, prints exactly the status it was given and ends the process with
  status 1; a wait during which this happens does not return. The deferring
  callback stores exactly the result it was given, sets the flag and returns
  normally; the main thread then prints exactly that result's status and exits with
  status 1.
\<close>

theorem failure_printed_verbatim_then_exit_no_retry:
  "request_status r = Some err \<longrightarrow>
     callback i r s =
       Exited 1 (s\<lparr>done_cnt := done_cnt s + 1,
         trace := trace s @ [Lock, Cout (CallbackCalled i), Write DoneCnt,
                             Cerr (InferenceFailed err)]\<rparr>)
     \<and> submitted (state_of (callback i r s)) = submitted s
     \<and> (\<not> all_done s \<longrightarrow>
          wait_all ((Complete i r # evs) # sched) s =
            Some (Exited 1 (s\<lparr>done_cnt := done_cnt s + 1,
              trace := trace s @ [Lock, Unlock, Lock, Cout (CallbackCalled i), Write DoneCnt,
                                  Cerr (InferenceFailed err)]\<rparr>), sched))
     \<and> deferred_callback r s =
       Running (s\<lparr>callback_invoked := True, result_placeholder := Some r,
         trace := trace s @ [Lock, Write CallbackInvoked, Write ResultPlaceholder,
                             Unlock, Notify]\<rparr>)
     \<and> submitted (state_of (deferred_callback r s)) = submitted s
     \<and> get_deferred (state_of (deferred_callback r s)) =
         Some (Exited 1 (emit (Cerr (InferenceFailed err))
           (emit (Cout GettingDeferred) (state_of (deferred_callback r s)))))"
proof
  assume failed: "request_status r = Some err"
  have during_wait: "wait_all ((Complete i r # evs) # sched) s =
      Some (Exited 1 (s\<lparr>done_cnt := done_cnt s + 1,
        trace := trace s @ [Lock, Unlock, Lock, Cout (CallbackCalled i), Write DoneCnt,
                            Cerr (InferenceFailed err)]\<rparr>), sched)"
    if "\<not> all_done s"
    using that failed
    by (simp add: wait_all_def all_done_iff callback_failed emit_def)
  from failed during_wait
  show "callback i r s =
       Exited 1 (s\<lparr>done_cnt := done_cnt s + 1,
         trace := trace s @ [Lock, Cout (CallbackCalled i), Write DoneCnt,
                             Cerr (InferenceFailed err)]\<rparr>)
     \<and> submitted (state_of (callback i r s)) = submitted s
     \<and> (\<not> all_done s \<longrightarrow>
          wait_all ((Complete i r # evs) # sched) s =
            Some (Exited 1 (s\<lparr>done_cnt := done_cnt s + 1,
              trace := trace s @ [Lock, Unlock, Lock, Cout (CallbackCalled i), Write DoneCnt,
                                  Cerr (InferenceFailed err)]\<rparr>), sched))
     \<and> deferred_callback r s =
       Running (s\<lparr>callback_invoked := True, result_placeholder := Some r,
         trace := trace s @ [Lock, Write CallbackInvoked, Write ResultPlaceholder,
                             Unlock, Notify]\<rparr>)
     \<and> submitted (state_of (deferred_callback r s)) = submitted s
     \<and> get_deferred (state_of (deferred_callback r s)) =
         Some (Exited 1 (emit (Cerr (InferenceFailed err))
           (emit (Cout GettingDeferred) (state_of (deferred_callback r s)))))"
    by (simp add: callback_failed deferred_callback_eq get_deferred_def)
qed

theorem failure_printed_verbatim_then_exit_no_retry_witness:
  "callback 0 (no_outputs (Some (Error ''Deadline Exceeded''))) async_init =
     Exited 1 (async_init\<lparr>done_cnt := 1,
       trace := [Lock, Cout (CallbackCalled 0), Write DoneCnt,
                 Cerr (InferenceFailed (Error ''Deadline Exceeded''))]\<rparr>)
   \<and> \<not> all_done async_init
   \<and> wait_all [[Complete 0 (no_outputs (Some (Error ''Deadline Exceeded''))), Submit], []]
        async_init =
     Some (Exited 1 (async_init\<lparr>done_cnt := 1,
       trace := [Lock, Unlock, Lock, Cout (CallbackCalled 0), Write DoneCnt,
                 Cerr (InferenceFailed (Error ''Deadline Exceeded''))]\<rparr>), [[]])
   \<and> result_placeholder
        (state_of (deferred_callback (no_outputs (Some (Error ''Deadline Exceeded''))) async_init))
      = Some (no_outputs (Some (Error ''Deadline Exceeded'')))"
  using failure_printed_verbatim_then_exit_no_retry
    [where r = "no_outputs (Some (Error ''Deadline Exceeded''))"
      and err = "Error ''Deadline Exceeded''" and i = 0 and s = async_init
      and evs = "[Submit]" and sched = "[[]]"]
  by (simp add: no_outputs_def async_init_def all_done_iff)

subsection \<open>The wait for the deferring callback\<close>

lemma deliver_slot:
  "deliver e s = Running s' \<Longrightarrow>
    (callback_invoked s' = callback_invoked s \<and> result_placeholder s' = result_placeholder s) \<or>
    (\<exists>r. e = CompleteDeferred r \<and> callback_invoked s' \<and> result_placeholder s' = Some r)"
  by (cases e)
    (auto simp: callback_def Let_def deferred_callback_eq async_infer_def split: option.splits)

lemma run_env_slot:
  "run_env evs s = Running s' \<Longrightarrow>
    (callback_invoked s' = callback_invoked s \<and> result_placeholder s' = result_placeholder s) \<or>
    (\<exists>r. CompleteDeferred r \<in> set evs \<and> callback_invoked s' \<and> result_placeholder s' = Some r)"
proof (induction evs arbitrary: s)
  case Nil
  then show ?case by simp
next
  case (Cons e evs)
  from Cons.prems obtain t where d: "deliver e s = Running t" and r: "run_env evs t = Running s'"
    by (auto split: proc.splits)
  from deliver_slot [OF d] Cons.IH [OF r] show ?case
    by auto
qed

lemma cv_wait_slot:
  "cv_wait pred sched s = Some (Running s', rest) \<Longrightarrow>
    (callback_invoked s' = callback_invoked s \<and> result_placeholder s' = result_placeholder s) \<or>
    (\<exists>r. CompleteDeferred r \<in> set (concat sched) \<and> callback_invoked s' \<and>
       result_placeholder s' = Some r)"
proof (induction sched arbitrary: s)
  case Nil
  then show ?case by (simp split: if_splits)
next
  case (Cons batch sched)
  show ?case
  proof (cases "pred s")
    case True
    with Cons.prems show ?thesis by simp
  next
    case False
    with Cons.prems obtain t where b: "run_env batch (emit Unlock s) = Running t"
      and w: "cv_wait pred sched (emit Lock t) = Some (Running s', rest)"
      by (auto split: proc.splits)
    from run_env_slot [OF b] Cons.IH [OF w] show ?thesis
      by auto
  qed
qed

lemma wait_one_returns:
  assumes "wait_one sched s = Some (Running s', rest)"
  shows "callback_invoked s'"
    and "\<not> callback_invoked s \<Longrightarrow>
      \<exists>r. CompleteDeferred r \<in> set (concat sched) \<and> result_placeholder s' = Some r"
proof -
  from assms obtain t where w: "cv_wait callback_invoked sched (emit Lock s) = Some (Running t, rest)"
    and s': "s' = emit Unlock t"
    by (auto simp: wait_one_def split: option.splits proc.splits prod.splits)
  from cv_wait_returns_pred [OF w] s' show "callback_invoked s'"
    by simp
  assume "\<not> callback_invoked s"
  with cv_wait_slot [OF w] cv_wait_returns_pred [OF w] s'
  show "\<exists>r. CompleteDeferred r \<in> set (concat sched) \<and> result_placeholder s' = Some r"
    by auto
qed

lemma submit_deferred_running:
  "submit_deferred st s0 = Running s \<Longrightarrow> \<not> callback_invoked s"
  by (auto simp: submit_deferred_def async_infer_def split: option.splits)

lemma get_deferred_defined:
  "result_placeholder s = Some r \<Longrightarrow> get_deferred s \<noteq> None"
  by (simp add: get_deferred_def Let_def split: option.splits)

lemma main_from_no_null_dereference:
  "main_from sts st pre sched s0 \<noteq> NullDereference"
proof
  assume "main_from sts st pre sched s0 = NullDereference"
  then obtain s4 s5 s6 rest rest' where
    sub: "submit_deferred st s4 = Running s5"
    and w: "wait_one rest s5 = Some (Running s6, rest')"
    and g: "get_deferred s6 = None"
    by (auto simp: main_from_def split: proc.splits option.splits prod.splits)
  from wait_one_returns(2) [OF w submit_deferred_running [OF sub]] obtain r
    where "result_placeholder s6 = Some r"
    by blast
  from get_deferred_defined [OF this] g show False
    by simp
qed

text \<open>
  C5. The second wait returns to the main thread only with
  \<^verbatim>\<open>callback_invoked\<close> set. Entered after the last request was submitted, it
  returns only after the deferring callback has run, with the slot holding a result
  that was delivered to that callback, so the read that follows is defined; no run
  of \<^verbatim>\<open>main\<close> dereferences a null slot. The callback writes the flag and the
  slot between one acquisition of \<^verbatim>\<open>mtx\<close> and its release, and notifies after.
\<close>

theorem wait_one_returns_after_deferred_callback:
  "(wait_one sched s = Some (Running s', rest) \<longrightarrow> callback_invoked s')
   \<and> (submit_deferred st s0 = Running s \<and> wait_one sched s = Some (Running s', rest) \<longrightarrow>
        (\<exists>r. CompleteDeferred r \<in> set (concat sched) \<and> result_placeholder s' = Some r \<and>
           get_deferred s' \<noteq> None))
   \<and> main_from sts st pre sched s0 \<noteq> NullDereference
   \<and> deferred_callback r s =
       Running (s\<lparr>callback_invoked := True, result_placeholder := Some r,
         trace := trace s @ [Lock, Write CallbackInvoked, Write ResultPlaceholder,
                             Unlock, Notify]\<rparr>)"
proof -
  have flag: "callback_invoked s'" if "wait_one sched s = Some (Running s', rest)"
    using wait_one_returns(1) [OF that] .
  have slot: "\<exists>r. CompleteDeferred r \<in> set (concat sched) \<and> result_placeholder s' = Some r \<and>
      get_deferred s' \<noteq> None"
    if "submit_deferred st s0 = Running s" and "wait_one sched s = Some (Running s', rest)"
  proof -
    from wait_one_returns(2) [OF that(2) submit_deferred_running [OF that(1)]]
    obtain r where r: "CompleteDeferred r \<in> set (concat sched)" "result_placeholder s' = Some r"
      by blast
    from r get_deferred_defined [OF r(2)] show ?thesis
      by blast
  qed
  from flag slot main_from_no_null_dereference deferred_callback_eq show ?thesis
    by blast
qed

theorem wait_one_returns_after_deferred_callback_witness:
  "submit_deferred None (async_init\<lparr>done_cnt := 1, submitted := 1\<rparr>) =
     Running (async_init\<lparr>done_cnt := 1, submitted := 2\<rparr>)
   \<and> wait_one [[], [CompleteDeferred (no_outputs None)], [Submit]]
        (async_init\<lparr>done_cnt := 1, submitted := 2\<rparr>) =
     Some (Running (async_init\<lparr>done_cnt := 1, submitted := 2, callback_invoked := True,
        result_placeholder := Some (no_outputs None),
        trace := [Lock, Unlock, Lock, Unlock, Lock, Write CallbackInvoked,
                  Write ResultPlaceholder, Unlock, Notify, Lock, Unlock]\<rparr>), [[Submit]])
   \<and> get_deferred (async_init\<lparr>done_cnt := 1, submitted := 2, callback_invoked := True,
        result_placeholder := Some (no_outputs None),
        trace := [Lock, Unlock, Lock, Unlock, Lock, Write CallbackInvoked,
                  Write ResultPlaceholder, Unlock, Notify, Lock, Unlock]\<rparr>) \<noteq> None"
  using wait_one_returns_after_deferred_callback
    [where sched = "[[], [CompleteDeferred (no_outputs None)], [Submit]]"
      and s = "async_init\<lparr>done_cnt := 1, submitted := 2\<rparr>"
      and ?s0.0 = "async_init\<lparr>done_cnt := 1, submitted := 1\<rparr>"
      and st = None and rest = "[[Submit]]"
      and s' = "async_init\<lparr>done_cnt := 1, submitted := 2, callback_invoked := True,
        result_placeholder := Some (no_outputs None),
        trace := [Lock, Unlock, Lock, Unlock, Lock, Write CallbackInvoked,
                  Write ResultPlaceholder, Unlock, Notify, Lock, Unlock]\<rparr>"]
  by (simp add: submit_deferred_def async_infer_def async_init_def wait_one_def
      deferred_callback_eq emit_def)

subsection \<open>The mutex and the condition variable\<close>

lemma locking_append:
  "locking h (xs @ ys) = (case locking h xs of None \<Rightarrow> None | Some h' \<Rightarrow> locking h' ys)"
  by (induction h xs rule: locking.induct) simp_all

lemma mutex_emit:
  "mutex (emit e s) = (case mutex s of None \<Rightarrow> None | Some h \<Rightarrow> locking h [e])"
  by (simp add: mutex_def locking_append)

lemma mutex_update [simp]:
  "mutex (s\<lparr>done_cnt := d\<rparr>) = mutex s"
  "mutex (s\<lparr>callback_invoked := c\<rparr>) = mutex s"
  "mutex (s\<lparr>result_placeholder := p\<rparr>) = mutex s"
  "mutex (s\<lparr>submitted := n\<rparr>) = mutex s"
  by (simp_all add: mutex_def)

lemma deliver_mutex:
  assumes "mutex s = Some False"
  shows "deliver e s = Running s' \<Longrightarrow> mutex s' = Some False"
    and "deliver e s = Exited c s' \<Longrightarrow> mutex s' \<noteq> None"
  using assms
  by (cases e; auto simp: callback_def deferred_callback_def async_infer_def Let_def mutex_emit
      split: option.splits)+

lemma run_env_mutex:
  assumes "mutex s = Some False"
  shows "run_env evs s = Running s' \<Longrightarrow> mutex s' = Some False"
    and "run_env evs s = Exited c s' \<Longrightarrow> mutex s' \<noteq> None"
  using assms
proof (induction evs arbitrary: s)
  case Nil
  { case 1 then show ?case by simp }
  { case 2 then show ?case by simp }
next
  case (Cons e evs)
  { case 1
    then obtain t where d: "deliver e s = Running t" and r: "run_env evs t = Running s'"
      by (auto split: proc.splits)
    from Cons.IH(1) [OF r deliver_mutex(1) [OF "1.prems"(2) d]] show ?case . }
  { case 2
    show ?case
    proof (cases "deliver e s")
      case (Running t)
      with 2 have r: "run_env evs t = Exited c s'" by simp
      from Cons.IH(2) [OF r deliver_mutex(1) [OF "2.prems"(2) Running]] show ?thesis .
    next
      case (Exited c' t)
      with 2 have "t = s'" by simp
      with deliver_mutex(2) [OF "2.prems"(2) Exited] show ?thesis by simp
    qed }
qed

lemma run_env_mutex_any:
  "mutex s = Some False \<Longrightarrow> mutex (state_of (run_env evs s)) \<noteq> None"
  using run_env_mutex [of s evs] by (cases "run_env evs s") auto

lemma cv_wait_mutex_proc:
  "mutex s = Some True \<Longrightarrow> cv_wait pred sched s = Some (p, rest) \<Longrightarrow>
    (case p of Running s' \<Rightarrow> mutex s' = Some True | Exited c s' \<Rightarrow> mutex s' \<noteq> None)"
proof (induction sched arbitrary: s)
  case Nil
  then show ?case by (auto split: if_splits)
next
  case (Cons batch sched)
  from Cons.prems(1) have free: "mutex (emit Unlock s) = Some False"
    by (simp add: mutex_emit)
  show ?case
  proof (cases "pred s")
    case True
    with Cons.prems show ?thesis by auto
  next
    case False
    show ?thesis
    proof (cases "run_env batch (emit Unlock s)")
      case (Running t)
      with False Cons.prems(2) have w: "cv_wait pred sched (emit Lock t) = Some (p, rest)"
        by simp
      from run_env_mutex(1) [OF free Running] have "mutex (emit Lock t) = Some True"
        by (simp add: mutex_emit)
      from Cons.IH [OF this w] show ?thesis .
    next
      case (Exited c t)
      with False Cons.prems(2) have "p = Exited c t" by simp
      with run_env_mutex(2) [OF free Exited] show ?thesis by simp
    qed
  qed
qed

lemma cv_wait_mutex:
  assumes "mutex s = Some True"
  shows "cv_wait pred sched s = Some (Running s', rest) \<Longrightarrow> mutex s' = Some True"
    and "cv_wait pred sched s = Some (Exited c s', rest) \<Longrightarrow> mutex s' \<noteq> None"
  using cv_wait_mutex_proc [OF assms, of pred sched "Running s'" rest]
    cv_wait_mutex_proc [OF assms, of pred sched "Exited c s'" rest]
  by simp_all

lemma wait_all_mutex:
  assumes "mutex s = Some False"
  shows "wait_all sched s = Some (Running s', rest) \<Longrightarrow> mutex s' = Some False"
    and "wait_all sched s = Some (Exited c s', rest) \<Longrightarrow> mutex s' \<noteq> None"
proof -
  from assms have held: "mutex (emit Lock s) = Some True"
    by (simp add: mutex_emit)
  show "mutex s' = Some False" if "wait_all sched s = Some (Running s', rest)"
  proof -
    from that obtain t where w: "cv_wait all_done sched (emit Lock s) = Some (Running t, rest)"
      and s': "s' = emit Unlock t"
      by (auto simp: wait_all_def split: option.splits proc.splits prod.splits)
    from cv_wait_mutex(1) [OF held w] s' show ?thesis
      by (simp add: mutex_emit)
  qed
  show "mutex s' \<noteq> None" if "wait_all sched s = Some (Exited c s', rest)"
  proof -
    from that have "cv_wait all_done sched (emit Lock s) = Some (Exited c s', rest)"
      by (auto simp: wait_all_def split: option.splits proc.splits prod.splits)
    from cv_wait_mutex(2) [OF held this] show ?thesis .
  qed
qed

lemma wait_one_mutex:
  assumes "mutex s = Some False"
  shows "wait_one sched s = Some (Running s', rest) \<Longrightarrow> mutex s' = Some False"
    and "wait_one sched s = Some (Exited c s', rest) \<Longrightarrow> mutex s' \<noteq> None"
proof -
  from assms have held: "mutex (emit Lock s) = Some True"
    by (simp add: mutex_emit)
  show "mutex s' = Some False" if "wait_one sched s = Some (Running s', rest)"
  proof -
    from that obtain t where
      w: "cv_wait callback_invoked sched (emit Lock s) = Some (Running t, rest)"
      and s': "s' = emit Unlock t"
      by (auto simp: wait_one_def split: option.splits proc.splits prod.splits)
    from cv_wait_mutex(1) [OF held w] s' show ?thesis
      by (simp add: mutex_emit)
  qed
  show "mutex s' \<noteq> None" if "wait_one sched s = Some (Exited c s', rest)"
  proof -
    from that have "cv_wait callback_invoked sched (emit Lock s) = Some (Exited c s', rest)"
      by (auto simp: wait_one_def split: option.splits proc.splits prod.splits)
    from cv_wait_mutex(2) [OF held this] show ?thesis .
  qed
qed

lemma async_infer_mutex:
  "mutex (state_of (async_infer st s)) = mutex s"
  by (cases "mutex s") (auto simp: async_infer_def mutex_emit split: option.splits)

lemma submit_from_mutex:
  "mutex (state_of (submit_from st i s)) = mutex s"
proof (induction st i s rule: submit_from.induct)
  case (1 st i s)
  show ?case
  proof (cases "i < repeat_cnt s")
    case False
    then show ?thesis by (simp add: submit_from.simps [of st i s])
  next
    case True
    show ?thesis
    proof (cases "async_infer (st i) s")
      case (Running t)
      with "1.IH" [OF True Running] async_infer_mutex [of "st i" s] True show ?thesis
        by (simp add: submit_from.simps [of st i s])
    next
      case (Exited c t)
      with async_infer_mutex [of "st i" s] True show ?thesis
        by (simp add: submit_from.simps [of st i s])
    qed
  qed
qed

lemma check_all_done_mutex:
  "mutex (state_of (check_all_done s)) = mutex s"
  by (cases "mutex s") (auto simp: check_all_done_def mutex_emit)

lemma submit_deferred_mutex:
  "mutex (state_of (submit_deferred st s)) = mutex s"
  using async_infer_mutex [of st "s\<lparr>callback_invoked := False, result_placeholder := None\<rparr>"]
  by (simp add: submit_deferred_def)

lemma get_deferred_mutex:
  "get_deferred s = Some p \<Longrightarrow> mutex (state_of p) = mutex s"
  by (cases "mutex s")
    (auto simp: get_deferred_def Let_def mutex_emit split: option.splits)

lemma disciplined_simps [simp]:
  "disciplined (Running s) \<longleftrightarrow> mutex s = Some False"
  "disciplined (Exited c s) \<longleftrightarrow> mutex s \<noteq> None"
  by (simp_all add: disciplined_def)

lemma disciplined_same:
  "mutex (state_of p) = mutex s \<Longrightarrow> mutex s = Some False \<Longrightarrow> disciplined p"
  by (cases p) simp_all

lemma stages_disciplined:
  assumes "mutex s = Some False"
  shows "disciplined (submit_from sts i s)"
    and "disciplined (run_env evs s)"
    and "disciplined (check_all_done s)"
    and "disciplined (submit_deferred st s)"
    and "get_deferred s = Some p \<Longrightarrow> disciplined p"
    and "wait_all sched s = Some (p, rest) \<Longrightarrow> disciplined p"
    and "wait_one sched s = Some (p, rest) \<Longrightarrow> disciplined p"
proof -
  show "disciplined (submit_from sts i s)"
    using submit_from_mutex assms by (rule disciplined_same)
  show "disciplined (run_env evs s)"
    using run_env_mutex [OF assms, of evs] by (cases "run_env evs s") simp_all
  show "disciplined (check_all_done s)"
    using check_all_done_mutex assms by (rule disciplined_same)
  show "disciplined (submit_deferred st s)"
    using submit_deferred_mutex assms by (rule disciplined_same)
  show "disciplined p" if "get_deferred s = Some p"
    using get_deferred_mutex [OF that] assms by (rule disciplined_same)
  show "disciplined p" if "wait_all sched s = Some (p, rest)"
    using wait_all_mutex [OF assms, where sched = sched and rest = rest] that
    by (cases p) simp_all
  show "disciplined p" if "wait_one sched s = Some (p, rest)"
    using wait_one_mutex [OF assms, where sched = sched and rest = rest] that
    by (cases p) simp_all
qed

lemma main_from_mutex:
  assumes free: "mutex s0 = Some False"
    and ends: "main_from sts st pre sched s0 = Returns c s \<or>
      main_from sts st pre sched s0 = Exits c s"
  shows "mutex s \<noteq> None"
proof (cases "submit_from sts 0 s0")
  case (Exited c1 t1)
  with ends stages_disciplined(1) [OF free, of sts 0] show ?thesis
    by (auto simp: main_from_def)
next
  case s1: (Running s1)
  with stages_disciplined(1) [OF free, of sts 0] have f1: "mutex s1 = Some False"
    by simp
  show ?thesis
  proof (cases "run_env pre s1")
    case (Exited c2 t2)
    with s1 ends stages_disciplined(2) [OF f1, of pre] show ?thesis
      by (auto simp: main_from_def)
  next
    case s2: (Running s2)
    with stages_disciplined(2) [OF f1, of pre] have f2: "mutex s2 = Some False"
      by simp
    show ?thesis
    proof (cases "wait_all sched s2")
      case None
      with s1 s2 ends show ?thesis
        by (simp add: main_from_def)
    next
      case (Some pr)
      obtain p3 rest where pr: "pr = (p3, rest)"
        by (cases pr)
      from stages_disciplined(6) [OF f2, of sched p3 rest] Some pr have d3: "disciplined p3"
        by simp
      show ?thesis
      proof (cases p3)
        case (Exited c3 t3)
        with s1 s2 Some pr ends d3 show ?thesis
          by (auto simp: main_from_def)
      next
        case s3: (Running s3)
        with d3 have f3: "mutex s3 = Some False"
          by simp
        show ?thesis
        proof (cases "check_all_done s3")
          case (Exited c4 t4)
          with s1 s2 Some pr s3 ends stages_disciplined(3) [OF f3] show ?thesis
            by (auto simp: main_from_def)
        next
          case s4: (Running s4)
          with stages_disciplined(3) [OF f3] have f4: "mutex s4 = Some False"
            by simp
          show ?thesis
          proof (cases "submit_deferred st s4")
            case (Exited c5 t5)
            with s1 s2 Some pr s3 s4 ends stages_disciplined(4) [OF f4, of st] show ?thesis
              by (auto simp: main_from_def)
          next
            case s5: (Running s5)
            with stages_disciplined(4) [OF f4, of st] have f5: "mutex s5 = Some False"
              by simp
            show ?thesis
            proof (cases "wait_one rest s5")
              case None
              with s1 s2 Some pr s3 s4 s5 ends show ?thesis
                by (simp add: main_from_def)
            next
              case w: (Some pr')
              obtain p6 rest' where pr': "pr' = (p6, rest')"
                by (cases pr')
              from stages_disciplined(7) [OF f5, of rest p6 rest'] w pr'
              have d6: "disciplined p6"
                by simp
              show ?thesis
              proof (cases p6)
                case (Exited c6 t6)
                with s1 s2 Some pr s3 s4 s5 w pr' ends d6 show ?thesis
                  by (auto simp: main_from_def)
              next
                case s6: (Running s6)
                with d6 have f6: "mutex s6 = Some False"
                  by simp
                show ?thesis
                proof (cases "get_deferred s6")
                  case None
                  with s1 s2 Some pr s3 s4 s5 w pr' s6 ends show ?thesis
                    by (simp add: main_from_def)
                next
                  case g: (Some p7)
                  from stages_disciplined(5) [OF f6 g] have "disciplined p7" .
                  with s1 s2 Some pr s3 s4 s5 w pr' s6 g ends show ?thesis
                    by (cases p7) (auto simp: main_from_def mutex_emit)
                qed
              qed
            qed
          qed
        qed
      qed
    qed
  qed
qed

text \<open>
  C6, as stated, fails in one part: the mutex is not held only for the update of
  the counter. The counting callback prints its line between acquiring and
  releasing \<^verbatim>\<open>mtx\<close>, and on a failed request it prints the error and calls
  \<^verbatim>\<open>exit(1)\<close> with \<^verbatim>\<open>mtx\<close> still held, without notifying.
\<close>

theorem callback_prints_while_holding_mutex:
  "callback 0 (no_outputs None) async_init =
     Running (async_init\<lparr>done_cnt := 1,
       trace := [Lock, Cout (CallbackCalled 0), Write DoneCnt, Unlock, Notify]\<rparr>)
   \<and> \<not> quiet_while_held False [Lock, Cout (CallbackCalled 0), Write DoneCnt, Unlock, Notify]
   \<and> callback 0 (no_outputs (Some (Error ''unavailable''))) async_init =
     Exited 1 (async_init\<lparr>done_cnt := 1,
       trace := [Lock, Cout (CallbackCalled 0), Write DoneCnt,
                 Cerr (InferenceFailed (Error ''unavailable''))]\<rparr>)
   \<and> locking False [Lock, Cout (CallbackCalled 0), Write DoneCnt,
                 Cerr (InferenceFailed (Error ''unavailable''))] = Some True"
  by (simp add: callback_ok callback_failed no_outputs_def async_init_def)

text \<open>
  C6, amended. Every write to \<^verbatim>\<open>done_cnt\<close>, \<^verbatim>\<open>callback_invoked\<close> and
  \<^verbatim>\<open>result_placeholder\<close> happens with the one mutex held, and every
  \<^verbatim>\<open>cv.notify_all()\<close> with the mutex released: each run of a callback started with
  the mutex free keeps this discipline and, when it returns, leaves the mutex free;
  so does every run of \<^verbatim>\<open>main\<close> that returns or exits, whatever the other
  threads do. In the deferring callback nothing but the two writes happens while
  the mutex is held.
\<close>

theorem shared_writes_under_mutex_notify_after:
  "(mutex s = Some False \<and> deliver e s = Running s' \<longrightarrow> mutex s' = Some False)
   \<and> (mutex s = Some False \<and> deliver e s = Exited c s' \<longrightarrow> mutex s' \<noteq> None)
   \<and> (mutex s0 = Some False \<and>
        (main_from sts st pre sched s0 = Returns c s'' \<or>
         main_from sts st pre sched s0 = Exits c s'') \<longrightarrow> mutex s'' \<noteq> None)
   \<and> quiet_while_held False
        (trace (state_of (deferred_callback r \<lparr>done_cnt = d, repeat_cnt = n,
           callback_invoked = f, result_placeholder = p, submitted = k, trace = []\<rparr>)))"
  using deliver_mutex(1) [where s = s and e = e and s' = s']
    deliver_mutex(2) [where s = s and e = e and s' = s' and c = c]
    main_from_mutex [where ?s0.0 = s0 and sts = sts and st = st and pre = pre and sched = sched
      and c = c and s = s'']
  by (simp add: deferred_callback_eq)

theorem shared_writes_under_mutex_notify_after_witness:
  "mutex async_init = Some False
   \<and> deliver (Complete 0 (no_outputs None)) async_init =
       Running (async_init\<lparr>done_cnt := 1,
         trace := [Lock, Cout (CallbackCalled 0), Write DoneCnt, Unlock, Notify]\<rparr>)
   \<and> mutex (async_init\<lparr>done_cnt := 1,
         trace := [Lock, Cout (CallbackCalled 0), Write DoneCnt, Unlock, Notify]\<rparr>) = Some False
   \<and> deliver (Complete 0 (no_outputs (Some (Error ''unavailable'')))) async_init =
       Exited 1 (async_init\<lparr>done_cnt := 1,
         trace := [Lock, Cout (CallbackCalled 0), Write DoneCnt,
                   Cerr (InferenceFailed (Error ''unavailable''))]\<rparr>)
   \<and> mutex (async_init\<lparr>done_cnt := 1,
         trace := [Lock, Cout (CallbackCalled 0), Write DoneCnt,
                   Cerr (InferenceFailed (Error ''unavailable''))]\<rparr>) \<noteq> None
   \<and> main_from (\<lambda>i. None) None [Complete 0 (no_outputs None)]
         [[], [CompleteDeferred (no_outputs None)]] async_init =
       Returns 0 (async_init\<lparr>done_cnt := 1, callback_invoked := True,
         result_placeholder := Some (no_outputs None), submitted := 2,
         trace := [Lock, Cout (CallbackCalled 0), Write DoneCnt, Unlock, Notify,
                   Lock, Unlock, Cout AllDone,
                   Lock, Unlock, Lock, Unlock,
                   Lock, Write CallbackInvoked, Write ResultPlaceholder, Unlock, Notify,
                   Lock, Unlock, Cout GettingDeferred, Cout ClientStats,
                   Cout PassAsyncInfer]\<rparr>)
   \<and> mutex (async_init\<lparr>done_cnt := 1, callback_invoked := True,
         result_placeholder := Some (no_outputs None), submitted := 2,
         trace := [Lock, Cout (CallbackCalled 0), Write DoneCnt, Unlock, Notify,
                   Lock, Unlock, Cout AllDone,
                   Lock, Unlock, Lock, Unlock,
                   Lock, Write CallbackInvoked, Write ResultPlaceholder, Unlock, Notify,
                   Lock, Unlock, Cout GettingDeferred, Cout ClientStats,
                   Cout PassAsyncInfer]\<rparr>) \<noteq> None"
  using shared_writes_under_mutex_notify_after
    [where s = async_init and e = "Complete 0 (no_outputs None)"
      and s' = "async_init\<lparr>done_cnt := 1,
         trace := [Lock, Cout (CallbackCalled 0), Write DoneCnt, Unlock, Notify]\<rparr>"
      and ?s0.0 = async_init and sts = "\<lambda>i. None" and st = None
      and pre = "[Complete 0 (no_outputs None)]"
      and sched = "[[], [CompleteDeferred (no_outputs None)]]" and c = 0
      and s'' = "async_init\<lparr>done_cnt := 1, callback_invoked := True,
         result_placeholder := Some (no_outputs None), submitted := 2,
         trace := [Lock, Cout (CallbackCalled 0), Write DoneCnt, Unlock, Notify,
                   Lock, Unlock, Cout AllDone,
                   Lock, Unlock, Lock, Unlock,
                   Lock, Write CallbackInvoked, Write ResultPlaceholder, Unlock, Notify,
                   Lock, Unlock, Cout GettingDeferred, Cout ClientStats,
                   Cout PassAsyncInfer]\<rparr>"]
    shared_writes_under_mutex_notify_after
    [where s = async_init and e = "Complete 0 (no_outputs (Some (Error ''unavailable'')))"
      and c = 1 and s' = "async_init\<lparr>done_cnt := 1,
         trace := [Lock, Cout (CallbackCalled 0), Write DoneCnt,
                   Cerr (InferenceFailed (Error ''unavailable''))]\<rparr>"]
  by (simp add: mutex_def async_init_def callback_ok callback_failed no_outputs_def
      main_from_def submit_from.simps async_infer_def wait_all_def wait_one_def all_done_iff
      check_all_done_def submit_deferred_def get_deferred_def deferred_callback_eq emit_def)

subsection \<open>Submissions during the first wait\<close>

lemma deliver_observe:
  "observe_state s = observe_state t \<Longrightarrow>
    observe (deliver e s) =
      (if is_submit e then (None, observe_state t) else observe (deliver e t))"
  by (cases e)
    (auto simp: observe_state_def callback_def deferred_callback_def async_infer_def Let_def
      emit_def split: option.splits)

lemma observe_eq_cases:
  "observe p = observe q \<Longrightarrow>
    (\<exists>s t. p = Running s \<and> q = Running t \<and> observe_state s = observe_state t) \<or>
    (\<exists>c s t. p = Exited c s \<and> q = Exited c t \<and> observe_state s = observe_state t)"
  by (cases p; cases q) auto

lemma run_env_observe:
  "observe_state s = observe_state t \<Longrightarrow>
    observe (run_env evs s) = observe (run_env (filter (\<lambda>e. \<not> is_submit e) evs) t)"
proof (induction evs arbitrary: s t)
  case Nil
  then show ?case by simp
next
  case (Cons e evs)
  show ?case
  proof (cases "is_submit e")
    case True
    then have e: "e = Submit" by (cases e) simp_all
    have "observe_state (s\<lparr>submitted := Suc (submitted s)\<rparr>) = observe_state t"
      using Cons.prems by (simp add: observe_state_def)
    from Cons.IH [OF this] e show ?thesis
      by (simp add: async_infer_def)
  next
    case False
    with deliver_observe [OF Cons.prems, of e]
    have "observe (deliver e s) = observe (deliver e t)" by simp
    from observe_eq_cases [OF this] show ?thesis
    proof (elim disjE exE conjE)
      fix s' t' assume "deliver e s = Running s'" "deliver e t = Running t'"
        "observe_state s' = observe_state t'"
      with Cons.IH [of s' t'] False show ?thesis by simp
    next
      fix c s' t' assume "deliver e s = Exited c s'" "deliver e t = Exited c t'"
        "observe_state s' = observe_state t'"
      with False show ?thesis by simp
    qed
  qed
qed

lemma cv_wait_all_done_observe:
  "observe_state s = observe_state t \<Longrightarrow>
    map_option (\<lambda>(p, rest). (observe p, without_submits rest)) (cv_wait all_done sched s) =
    map_option (\<lambda>(p, rest). (observe p, rest)) (cv_wait all_done (without_submits sched) t)"
proof (induction sched arbitrary: s t)
  case Nil
  then show ?case
    by (auto simp: without_submits_def all_done_iff observe_state_def)
next
  case (Cons batch sched)
  from Cons.prems have pred: "all_done s = all_done t"
    by (simp add: all_done_iff observe_state_def)
  show ?case
  proof (cases "all_done s")
    case True
    with pred Cons.prems show ?thesis
      by (simp add: without_submits_def)
  next
    case False
    from Cons.prems have "observe_state (emit Unlock s) = observe_state (emit Unlock t)"
      by (simp add: observe_state_def)
    from run_env_observe [OF this, of batch]
    have "observe (run_env batch (emit Unlock s)) =
      observe (run_env (filter (\<lambda>e. \<not> is_submit e) batch) (emit Unlock t))" .
    from observe_eq_cases [OF this] show ?thesis
    proof (elim disjE exE conjE)
      fix s' t' assume st: "run_env batch (emit Unlock s) = Running s'"
        "run_env (filter (\<lambda>e. \<not> is_submit e) batch) (emit Unlock t) = Running t'"
        "observe_state s' = observe_state t'"
      then have "observe_state (emit Lock s') = observe_state (emit Lock t')"
        by (simp add: observe_state_def)
      from Cons.IH [OF this] st False pred show ?thesis
        by (simp add: without_submits_def)
    next
      fix c s' t' assume "run_env batch (emit Unlock s) = Exited c s'"
        "run_env (filter (\<lambda>e. \<not> is_submit e) batch) (emit Unlock t) = Exited c t'"
        "observe_state s' = observe_state t'"
      with False pred show ?thesis
        by (simp add: without_submits_def)
    qed
  qed
qed

lemma wait_all_observe:
  "map_option (\<lambda>(p, rest). (observe p, without_submits rest)) (wait_all sched s) =
   map_option (\<lambda>(p, rest). (observe p, rest)) (wait_all (without_submits sched) s)"
proof -
  have "observe_state (emit Lock s) = observe_state (emit Lock s)"
    by simp
  from cv_wait_all_done_observe [OF this, of sched]
  have eq: "map_option (\<lambda>(p, rest). (observe p, without_submits rest))
        (cv_wait all_done sched (emit Lock s)) =
      map_option (\<lambda>(p, rest). (observe p, rest))
        (cv_wait all_done (without_submits sched) (emit Lock s))" .
  show ?thesis
  proof (cases "cv_wait all_done sched (emit Lock s)")
    case None
    with eq show ?thesis
      by (simp add: wait_all_def)
  next
    case (Some a)
    obtain p rest where a: "a = (p, rest)"
      by (cases a)
    from Some a eq have "\<exists>q. cv_wait all_done (without_submits sched) (emit Lock s) =
        Some (q, without_submits rest) \<and> observe p = observe q"
      by (cases "cv_wait all_done (without_submits sched) (emit Lock s)") auto
    then obtain q where
      q: "cv_wait all_done (without_submits sched) (emit Lock s) = Some (q, without_submits rest)"
      and pq: "observe p = observe q"
      by blast
    from observe_eq_cases [OF pq] Some a q show ?thesis
      by (auto simp: wait_all_def observe_state_def)
  qed
qed

lemma deliver_repeat_cnt:
  "repeat_cnt (state_of (deliver e s)) = repeat_cnt s"
  by (cases e)
    (auto simp: callback_def deferred_callback_def async_infer_def Let_def split: option.splits)

lemma run_env_repeat_cnt:
  "repeat_cnt (state_of (run_env evs s)) = repeat_cnt s"
proof (induction evs arbitrary: s)
  case Nil
  then show ?case by simp
next
  case (Cons e evs)
  show ?case
  proof (cases "deliver e s")
    case (Running t)
    with Cons.IH [of t] deliver_repeat_cnt [of e s] show ?thesis by simp
  next
    case (Exited c t)
    with deliver_repeat_cnt [of e s] show ?thesis by simp
  qed
qed

lemma cv_wait_repeat_cnt:
  "cv_wait pred sched s = Some (p, rest) \<Longrightarrow> repeat_cnt (state_of p) = repeat_cnt s"
proof (induction sched arbitrary: s)
  case Nil
  then show ?case by (auto split: if_splits)
next
  case (Cons batch sched)
  show ?case
  proof (cases "pred s")
    case True
    with Cons.prems show ?thesis by auto
  next
    case False
    show ?thesis
    proof (cases "run_env batch (emit Unlock s)")
      case (Running t)
      with False Cons.prems have "cv_wait pred sched (emit Lock t) = Some (p, rest)"
        by simp
      from Cons.IH [OF this] run_env_repeat_cnt [of batch "emit Unlock s"] Running
      show ?thesis
        by simp
    next
      case (Exited c t)
      with False Cons.prems run_env_repeat_cnt [of batch "emit Unlock s"] show ?thesis
        by auto
    qed
  qed
qed

lemma wait_all_repeat_cnt:
  "wait_all sched s = Some (p, rest) \<Longrightarrow> repeat_cnt (state_of p) = repeat_cnt s"
  by (auto simp: wait_all_def split: option.splits proc.splits prod.splits
      dest!: cv_wait_repeat_cnt)

lemma wait_all_after_submits:
  assumes lt: "done_cnt s < repeat_cnt s" and one: "done_cnt s + 1 = repeat_cnt s"
    and ok: "request_status r = None"
  shows "\<exists>s'. wait_all (replicate n [Submit] @ [Complete i r] # rest) s =
    Some (Running s', rest)"
proof -
  from lt have nd: "\<not> all_done (emit Lock s)"
    by (simp add: all_done_iff)
  have "\<forall>b\<in>set (replicate n [Submit]). \<forall>e\<in>set b. \<not> is_complete e"
    by simp
  from cv_wait_idle_prefix [OF nd this, of "[Complete i r] # rest"] obtain t where
    t: "cv_wait all_done (replicate n [Submit] @ [Complete i r] # rest) (emit Lock s) =
          cv_wait all_done ([Complete i r] # rest) t"
      "done_cnt t = done_cnt s" "repeat_cnt t = repeat_cnt s"
    by auto
  with lt one ok show ?thesis
    by (simp add: wait_all_def all_done_iff callback_ok cv_wait_immediate)
qed

text \<open>
  C7. The count the first wait waits for is the value of \<^verbatim>\<open>repeat_cnt\<close> when the
  wait began: it is the same when the wait ends, and a wait that returns has
  \<^verbatim>\<open>done_cnt\<close> at or above it. Requests that other threads submit during the
  wait do not extend it: with them the wait ends at the same wake-up, in the same
  way and with the same counters, flag, slot and trace as without them. However
  many submissions come first, the wait returns at the wake-up after the one missing
  completion.
\<close>

theorem wait_all_target_fixed_at_entry:
  "(wait_all sched s = Some (p, rest) \<longrightarrow>
      repeat_cnt (state_of p) = repeat_cnt s \<and>
      (\<forall>s'. p = Running s' \<longrightarrow> repeat_cnt s \<le> done_cnt s'))
   \<and> map_option (\<lambda>(p, rest). (observe p, without_submits rest)) (wait_all sched s) =
       map_option (\<lambda>(p, rest). (observe p, rest)) (wait_all (without_submits sched) s)
   \<and> (done_cnt s < repeat_cnt s \<and> done_cnt s + 1 = repeat_cnt s \<and>
       request_status r = None \<longrightarrow>
        (\<exists>s'. wait_all (replicate n [Submit] @ [Complete i r] # later) s =
           Some (Running s', later)))"
proof -
  have fixed: "repeat_cnt (state_of p) = repeat_cnt s \<and>
      (\<forall>s'. p = Running s' \<longrightarrow> repeat_cnt s \<le> done_cnt s')"
    if "wait_all sched s = Some (p, rest)"
    using wait_all_repeat_cnt [OF that] wait_all_returns [of sched s _ rest] that
    by auto
  from fixed wait_all_observe [of sched s] wait_all_after_submits [of s r n i later]
  show ?thesis
    by blast
qed

theorem wait_all_target_fixed_at_entry_witness:
  "wait_all [[Submit, Submit], [Submit], [Complete 0 (no_outputs None), Submit], [Submit]]
      async_init =
     Some (Running
       (async_init\<lparr>done_cnt := 1, submitted := 4,
          trace := [Lock, Unlock, Lock, Unlock, Lock, Unlock, Lock,
                    Cout (CallbackCalled 0), Write DoneCnt, Unlock, Notify, Lock, Unlock]\<rparr>),
       [[Submit]])
   \<and> repeat_cnt (async_init\<lparr>done_cnt := 1, submitted := 4,
          trace := [Lock, Unlock, Lock, Unlock, Lock, Unlock, Lock,
                    Cout (CallbackCalled 0), Write DoneCnt, Unlock, Notify, Lock, Unlock]\<rparr>)
       = repeat_cnt async_init
   \<and> (\<exists>s'. wait_all (replicate 2 [Submit] @ [Complete 0 (no_outputs None)] # [[Submit]])
         async_init = Some (Running s', [[Submit]]))"
  using wait_all_target_fixed_at_entry
    [where sched = "[[Submit, Submit], [Submit], [Complete 0 (no_outputs None), Submit], [Submit]]"
      and s = async_init and rest = "[[Submit]]"
      and p = "Running (async_init\<lparr>done_cnt := 1, submitted := 4,
          trace := [Lock, Unlock, Lock, Unlock, Lock, Unlock, Lock,
                    Cout (CallbackCalled 0), Write DoneCnt, Unlock, Notify, Lock, Unlock]\<rparr>)"
      and r = "no_outputs None" and n = 2 and i = 0 and later = "[[Submit]]"]
  by (simp add: wait_all_def all_done_iff async_init_def async_infer_def callback_ok
      no_outputs_def emit_def)

section \<open>Properties of the command-line parsers\<close>

lemma find_at_absent: "c \<notin> set s \<Longrightarrow> find_at i [c] s = npos"
  by (induction s arbitrary: i) auto

lemma find_at_found:
  "find_at i [c] s = Some k \<Longrightarrow> i \<le> k \<and> k - i < length s \<and> s ! (k - i) = c \<and> c \<notin> set (take (k - i) s)"
proof (induction s arbitrary: i)
  case Nil
  then show ?case by simp
next
  case (Cons a s)
  show ?case
  proof (cases "a = c")
    case True
    with Cons.prems show ?thesis by simp
  next
    case False
    with Cons.prems have "find_at (Suc i) [c] s = Some k" by simp
    from Cons.IH [OF this] False show ?thesis
      by (auto simp: Suc_diff_le take_Cons' nth_Cons')
  qed
qed

lemma getopt_one_with_arg:
  "takes_arg optstring c = Some True \<Longrightarrow> c \<noteq> CHR ''-'' \<Longrightarrow>
    getopt_scan optstring longopts [] [[CHR ''-'', c], a] = [Short c a]"
  by (cases longopts) (simp_all add: getopt_scan.simps)

lemma getopt_unrecognized_first:
  "takes_arg optstring c = None \<Longrightarrow> (c = CHR ''-'' \<longrightarrow> longopts = None \<and> cs \<noteq> []) \<Longrightarrow>
    getopt_scan optstring longopts [] ((CHR ''-'' # c # cs) # rest) =
      Unrecognized # getopt_scan optstring longopts cs rest"
  by (cases longopts) (auto simp: getopt_scan.simps)

lemma parse_loop_append:
  "parse_loop body (opts @ later) cfg =
    (case parse_loop body opts cfg of Inl e \<Rightarrow> Inl e | Inr cfg' \<Rightarrow> parse_loop body later cfg')"
  by (induction opts arbitrary: cfg) (auto split: sum.splits)

lemma optstrings:
  "takes_arg ''vu:i:t:H:'' CHR ''u'' = Some True"
  "takes_arg ''vu:i:t:H:'' CHR ''t'' = Some True"
  "takes_arg ''vu:i:t:H:'' CHR ''H'' = Some True"
  "takes_arg ''vu:i:t:H:'' CHR ''C'' = None"
  "takes_arg ''vu:i:t:H:'' CHR ''c'' = None"
  "takes_arg ''vu:i:t:H:C:c:'' CHR ''u'' = Some True"
  "takes_arg ''vu:i:t:H:C:c:'' CHR ''t'' = Some True"
  "takes_arg ''vu:i:t:H:C:c:'' CHR ''H'' = Some True"
  "takes_arg ''vu:i:t:H:C:c:'' CHR ''C'' = Some True"
  "takes_arg ''vu:i:t:H:C:c:'' CHR ''c'' = Some True"
  by (simp_all add: takes_arg_def)

lemma parse_loop_single: "parse_loop body [opt] cfg = body opt cfg"
  by (cases "body opt cfg") simp_all

lemma parse_async_one:
  assumes "takes_arg ''vu:i:t:H:'' c = Some True" and "c \<noteq> CHR ''-''"
  shows "parse_async [[CHR ''-'', c], a] = async_switch (Short c a) async_defaults"
  unfolding parse_async_def getopt_def getopt_one_with_arg [OF assms]
  by (rule parse_loop_single)

lemma parse_sync_one:
  assumes "takes_arg ''vu:i:t:H:C:c:'' c = Some True" and "c \<noteq> CHR ''-''"
  shows "parse_sync [[CHR ''-'', c], a] = sync_switch (Short c a) sync_defaults"
  unfolding parse_sync_def getopt_long_def getopt_one_with_arg [OF assms]
  by (rule parse_loop_single)

lemma header_split:
  assumes "find_str h '':'' = Some k"
  shows "substr h 0 (find_str h '':'') = Inr (take k h)"
    and "length (take k h) = k" and "k < length h"
    and "substr h (length (take k h) + 1) npos = Inr (drop (Suc k) h)"
proof -
  from assms have "find_at 0 [CHR '':''] h = Some k"
    by (simp add: find_str_def)
  from find_at_found [OF this] show k: "k < length h"
    by simp
  then show "length (take k h) = k"
    by simp
  with k show "substr h (length (take k h) + 1) npos = Inr (drop (Suc k) h)"
    by (simp add: substr_def)
  from assms show "substr h 0 (find_str h '':'') = Inr (take k h)"
    by (simp add: substr_def)
qed

text \<open>
  C8, as stated, fails for the asynchronous client: its option string is
  \<^verbatim>\<open>vu:i:t:H:\<close>, so it takes \<^verbatim>\<open>-C\<close> and \<^verbatim>\<open>-c\<close> for unrecognized options,
  prints the usage text and exits with status 1.
\<close>

theorem async_rejects_compression_and_cached_channel:
  "parse_async [''-C'', ''gzip''] = Inl (Exit 1 (Usage []))
   \<and> parse_async [''-c'', ''true''] = Inl (Exit 1 (Usage []))"
  by (simp add: parse_async_def getopt_def getopt_scan.simps takes_arg_def)

text \<open>
  C8, amended. The synchronous client accepts \<^verbatim>\<open>-u\<close>, \<^verbatim>\<open>-t\<close> (a number),
  \<^verbatim>\<open>-H\<close> (\<^verbatim>\<open>Header:Value\<close> with a header that is not empty), \<^verbatim>\<open>-C\<close>
  (\<^verbatim>\<open>deflate\<close>, \<^verbatim>\<open>gzip\<close> or \<^verbatim>\<open>none\<close>) and \<^verbatim>\<open>-c\<close> (a word containing
  \<^verbatim>\<open>false\<close> or \<^verbatim>\<open>true\<close>) and stores their values. The asynchronous client
  accepts \<^verbatim>\<open>-u\<close>, \<^verbatim>\<open>-t\<close> and \<^verbatim>\<open>-H\<close> (with a colon), and rejects \<^verbatim>\<open>-C\<close> and
  \<^verbatim>\<open>-c\<close>. In both programs a word that starts with an option character the
  option string does not know, and every \<^verbatim>\<open>'?'\<close> that \<^verbatim>\<open>getopt\<close> returns
  after options that were accepted, ends in the usage text and exit status 1. (Long
  options of the synchronous client are left out here.)
\<close>

theorem parsers_accept_their_flags:
  "parse_sync [''-u'', u] = Inr (sync_defaults\<lparr>url := u\<rparr>)
   \<and> (stoi t = Inr n \<longrightarrow>
        parse_sync [''-t'', t] = Inr (sync_defaults\<lparr>client_timeout := word_of_int n\<rparr>))
   \<and> (find_str h '':'' = Some k \<and> 0 < k \<longrightarrow>
        parse_sync [''-H'', h] =
          Inr (sync_defaults\<lparr>http_headers := [take k h \<mapsto> drop (Suc k) h]\<rparr>))
   \<and> parse_sync [''-C'', ''deflate''] =
        Inr (sync_defaults\<lparr>compression_algorithm := GRPC_COMPRESS_DEFLATE\<rparr>)
   \<and> parse_sync [''-C'', ''gzip''] =
        Inr (sync_defaults\<lparr>compression_algorithm := GRPC_COMPRESS_GZIP\<rparr>)
   \<and> parse_sync [''-C'', ''none''] =
        Inr (sync_defaults\<lparr>compression_algorithm := GRPC_COMPRESS_NONE\<rparr>)
   \<and> (find_str b ''false'' \<noteq> npos \<longrightarrow>
        parse_sync [''-c'', b] =
          Inr (sync_defaults\<lparr>test_use_cached_channel := True, use_cached_channel := False\<rparr>))
   \<and> (find_str b ''false'' = npos \<and> find_str b ''true'' \<noteq> npos \<longrightarrow>
        parse_sync [''-c'', b] =
          Inr (sync_defaults\<lparr>test_use_cached_channel := True, use_cached_channel := True\<rparr>))
   \<and> parse_async [''-u'', u] = Inr (async_defaults\<lparr>a_url := u\<rparr>)
   \<and> (stoi t = Inr n \<longrightarrow>
        parse_async [''-t'', t] = Inr (async_defaults\<lparr>a_client_timeout := word_of_int n\<rparr>))
   \<and> (find_str h '':'' = Some k \<longrightarrow>
        parse_async [''-H'', h] =
          Inr (async_defaults\<lparr>a_http_headers := [take k h \<mapsto> drop (Suc k) h]\<rparr>))
   \<and> parse_async (''-C'' # a # rest) = Inl (Exit 1 (Usage []))
   \<and> parse_async (''-c'' # a # rest) = Inl (Exit 1 (Usage []))
   \<and> (takes_arg ''vu:i:t:H:'' c = None \<and> (c = CHR ''-'' \<longrightarrow> cs \<noteq> []) \<longrightarrow>
        parse_async ((CHR ''-'' # c # cs) # rest) = Inl (Exit 1 (Usage [])))
   \<and> (takes_arg ''vu:i:t:H:C:c:'' c = None \<and> c \<noteq> CHR ''-'' \<longrightarrow>
        parse_sync ((CHR ''-'' # c # cs) # rest) = Inl (Exit 1 (Usage [])))
   \<and> (parse_loop async_switch opts async_defaults = Inr acfg \<longrightarrow>
        parse_loop async_switch (opts @ Unrecognized # later) async_defaults =
          Inl (Exit 1 (Usage [])))
   \<and> (parse_loop sync_switch opts sync_defaults = Inr scfg \<longrightarrow>
        parse_loop sync_switch (opts @ Unrecognized # later) sync_defaults =
          Inl (Exit 1 (Usage [])))"
proof (intro conjI impI)
  show "parse_sync [''-u'', u] = Inr (sync_defaults\<lparr>url := u\<rparr>)"
    by (simp add: parse_sync_one optstrings)
  show "parse_sync [''-t'', t] = Inr (sync_defaults\<lparr>client_timeout := word_of_int n\<rparr>)"
    if "stoi t = Inr n"
    using that by (simp add: parse_sync_one optstrings)
  show "parse_sync [''-H'', h] =
      Inr (sync_defaults\<lparr>http_headers := [take k h \<mapsto> drop (Suc k) h]\<rparr>)"
    if "find_str h '':'' = Some k \<and> 0 < k"
  proof -
    from that have f: "find_str h '':'' = Some k" and k: "0 < k"
      by simp_all
    from header_split(3) [OF f] k have "take k h \<noteq> []" "length (take k h) \<noteq> length h"
      by auto
    with header_split [OF f] f show ?thesis
      by (simp add: parse_sync_one optstrings sync_defaults_def)
  qed
  show "parse_sync [''-C'', ''deflate''] =
        Inr (sync_defaults\<lparr>compression_algorithm := GRPC_COMPRESS_DEFLATE\<rparr>)"
    by (simp add: parse_sync_one optstrings)
  show "parse_sync [''-C'', ''gzip''] =
        Inr (sync_defaults\<lparr>compression_algorithm := GRPC_COMPRESS_GZIP\<rparr>)"
    by (simp add: parse_sync_one optstrings)
  show "parse_sync [''-C'', ''none''] =
        Inr (sync_defaults\<lparr>compression_algorithm := GRPC_COMPRESS_NONE\<rparr>)"
    by (simp add: parse_sync_one optstrings)
  show "parse_sync [''-c'', b] =
      Inr (sync_defaults\<lparr>test_use_cached_channel := True, use_cached_channel := False\<rparr>)"
    if "find_str b ''false'' \<noteq> npos"
    using that by (simp add: parse_sync_one optstrings)
  show "parse_sync [''-c'', b] =
      Inr (sync_defaults\<lparr>test_use_cached_channel := True, use_cached_channel := True\<rparr>)"
    if "find_str b ''false'' = npos \<and> find_str b ''true'' \<noteq> npos"
    using that by (simp add: parse_sync_one optstrings)
  show "parse_async [''-u'', u] = Inr (async_defaults\<lparr>a_url := u\<rparr>)"
    by (simp add: parse_async_one optstrings)
  show "parse_async [''-t'', t] = Inr (async_defaults\<lparr>a_client_timeout := word_of_int n\<rparr>)"
    if "stoi t = Inr n"
    using that by (simp add: parse_async_one optstrings)
  show "parse_async [''-H'', h] =
      Inr (async_defaults\<lparr>a_http_headers := [take k h \<mapsto> drop (Suc k) h]\<rparr>)"
    if "find_str h '':'' = Some k"
    using header_split [OF that] that
    by (simp add: parse_async_one optstrings async_defaults_def)
  have abad: "parse_async ((CHR ''-'' # c # cs) # rest) = Inl (Exit 1 (Usage []))"
    if "takes_arg ''vu:i:t:H:'' c = None" and "c = CHR ''-'' \<longrightarrow> cs \<noteq> []" for c cs rest
    using that by (simp add: parse_async_def getopt_def getopt_unrecognized_first)
  from abad [of "CHR ''C''" "[]" "a # rest"]
  show "parse_async (''-C'' # a # rest) = Inl (Exit 1 (Usage []))"
    by (simp add: optstrings)
  from abad [of "CHR ''c''" "[]" "a # rest"]
  show "parse_async (''-c'' # a # rest) = Inl (Exit 1 (Usage []))"
    by (simp add: optstrings)
  show "parse_async ((CHR ''-'' # c # cs) # rest) = Inl (Exit 1 (Usage []))"
    if "takes_arg ''vu:i:t:H:'' c = None \<and> (c = CHR ''-'' \<longrightarrow> cs \<noteq> [])"
    using that abad [of c cs rest] by simp
  show "parse_sync ((CHR ''-'' # c # cs) # rest) = Inl (Exit 1 (Usage []))"
    if "takes_arg ''vu:i:t:H:C:c:'' c = None \<and> c \<noteq> CHR ''-''"
    using that by (simp add: parse_sync_def getopt_long_def getopt_unrecognized_first)
  show "parse_loop async_switch (opts @ Unrecognized # later) async_defaults =
      Inl (Exit 1 (Usage []))"
    if "parse_loop async_switch opts async_defaults = Inr acfg"
    using that by (simp add: parse_loop_append)
  show "parse_loop sync_switch (opts @ Unrecognized # later) sync_defaults =
      Inl (Exit 1 (Usage []))"
    if "parse_loop sync_switch opts sync_defaults = Inr scfg"
    using that by (simp add: parse_loop_append)
qed

theorem parsers_accept_their_flags_witness:
  "parse_sync [''-t'', ''5000''] = Inr (sync_defaults\<lparr>client_timeout := 5000\<rparr>)
   \<and> parse_sync [''-H'', ''Key:Value''] =
       Inr (sync_defaults\<lparr>http_headers := [''Key'' \<mapsto> ''Value'']\<rparr>)
   \<and> parse_sync [''-c'', ''false''] =
       Inr (sync_defaults\<lparr>test_use_cached_channel := True, use_cached_channel := False\<rparr>)
   \<and> parse_sync [''-c'', ''true''] =
       Inr (sync_defaults\<lparr>test_use_cached_channel := True, use_cached_channel := True\<rparr>)
   \<and> parse_async [''-t'', ''5000''] = Inr (async_defaults\<lparr>a_client_timeout := 5000\<rparr>)
   \<and> parse_async [''-H'', ''Key:Value''] =
       Inr (async_defaults\<lparr>a_http_headers := [''Key'' \<mapsto> ''Value'']\<rparr>)
   \<and> parse_async [''-x'', ''-v''] = Inl (Exit 1 (Usage []))
   \<and> parse_sync [''-x'', ''-v''] = Inl (Exit 1 (Usage []))
   \<and> parse_loop async_switch [Short CHR ''v'' [], Unrecognized] async_defaults =
       Inl (Exit 1 (Usage []))
   \<and> parse_loop sync_switch [Short CHR ''v'' [], Unrecognized] sync_defaults =
       Inl (Exit 1 (Usage []))"
  using parsers_accept_their_flags [where t = "''5000''" and n = 5000 and h = "''Key:Value''"
      and k = 3 and b = "''false''" and c = "CHR ''x''" and cs = "[]" and rest = "[''-v'']"
      and opts = "[Short CHR ''v'' []]" and later = "[]"
      and acfg = "async_defaults\<lparr>a_verbose := True\<rparr>"
      and scfg = "sync_defaults\<lparr>verbose := True\<rparr>"]
    parsers_accept_their_flags [where t = "''5000''" and n = 5000 and h = "''Key:Value''"
      and k = 3 and b = "''true''" and c = "CHR ''x''" and cs = "[]" and rest = "[''-v'']"
      and opts = "[Short CHR ''v'' []]" and later = "[]"
      and acfg = "async_defaults\<lparr>a_verbose := True\<rparr>"
      and scfg = "sync_defaults\<lparr>verbose := True\<rparr>"]
  by (simp add: stoi_def scan_number_def isspace_def isdigit_def digits_value_def find_str_def
      takes_arg_def)

text \<open>
  C10. For a \<^verbatim>\<open>-H\<close> argument without a colon, \<^verbatim>\<open>find\<close> gives \<^verbatim>\<open>npos\<close>, the
  header is the whole argument, and the asynchronous client asks for the substring
  at position \<^verbatim>\<open>header.size() + 1\<close>, one past the end of the argument:
  \<^verbatim>\<open>substr\<close> throws \<^verbatim>\<open>std::out_of_range\<close>, which nothing catches. The
  synchronous client sees that the header is as long as the argument and exits
  through \<^verbatim>\<open>Usage\<close> with status 1.
\<close>

theorem malformed_header_async_throws_sync_usage:
  "CHR '':'' \<notin> set arg \<longrightarrow>
     find_str arg '':'' = npos
     \<and> substr arg 0 (find_str arg '':'') = Inr arg
     \<and> length arg < length arg + 1
     \<and> substr arg (length arg + 1) npos = Inl (Uncaught Out_of_range)
     \<and> parse_async [''-H'', arg] = Inl (Uncaught Out_of_range)
     \<and> parse_sync [''-H'', arg] = Inl (Exit 1 (Usage header_msg))"
proof
  assume "CHR '':'' \<notin> set arg"
  then have f: "find_str arg '':'' = npos"
    by (simp add: find_str_def find_at_absent)
  then have h: "substr arg 0 (find_str arg '':'') = Inr arg"
    by (simp add: substr_def)
  have t: "substr arg (length arg + 1) npos = Inl (Uncaught Out_of_range)"
    by (simp add: substr_def)
  from f h t have "parse_async [''-H'', arg] = Inl (Uncaught Out_of_range)"
    by (simp add: parse_async_one optstrings)
  moreover from f h have "parse_sync [''-H'', arg] = Inl (Exit 1 (Usage header_msg))"
    by (simp add: parse_sync_one optstrings)
  ultimately show "find_str arg '':'' = npos
     \<and> substr arg 0 (find_str arg '':'') = Inr arg
     \<and> length arg < length arg + 1
     \<and> substr arg (length arg + 1) npos = Inl (Uncaught Out_of_range)
     \<and> parse_async [''-H'', arg] = Inl (Uncaught Out_of_range)
     \<and> parse_sync [''-H'', arg] = Inl (Exit 1 (Usage header_msg))"
    using f h t by simp
qed

theorem malformed_header_async_throws_sync_usage_witness:
  "parse_async [''-H'', ''Authorization''] = Inl (Uncaught Out_of_range)
   \<and> parse_sync [''-H'', ''Authorization''] = Inl (Exit 1 (Usage header_msg))"
  using malformed_header_async_throws_sync_usage [of "''Authorization''"]
  by simp

section \<open>Properties of the synchronous client's validation\<close>

lemma ValidateShapeAndDatatype_iff:
  "ValidateShapeAndDatatype name r = Inr () \<longleftrightarrow>
    shape r name = Inr [1, 16] \<and> datatype_of r name = Inr ''INT32''"
proof -
  have two: "length shp = 2 \<and> shp ! 0 = a \<and> shp ! 1 = b \<longleftrightarrow> shp = [a, b]" for shp :: "int64_t list" and a b
    by (cases shp; cases "tl shp") auto
  show ?thesis
    using two [of _ 1 16]
    by (auto simp: ValidateShapeAndDatatype_def fail_if_err_def split: sum.splits)
qed

lemma ValidateShapeAndDatatype_exit:
  "ValidateShapeAndDatatype name r \<noteq> Inr () \<Longrightarrow>
    \<exists>rep. ValidateShapeAndDatatype name r = Inl (Exit 1 rep)"
  by (auto simp: ValidateShapeAndDatatype_def fail_if_err_def split: sum.splits if_splits)

lemma compare_from_iff:
  "compare_from in0 in1 o0 o1 i = Inr () \<longleftrightarrow>
    (\<forall>j. i \<le> j \<and> j < 16 \<longrightarrow>
       int32_at o0 j = in0 ! j + in1 ! j \<and> int32_at o1 j = in0 ! j - in1 ! j)"
proof (induction in0 in1 o0 o1 i rule: compare_from.induct)
  case (1 in0 in1 o0 o1 i)
  show ?case
  proof (cases "i < 16")
    case False
    then show ?thesis
      by (auto simp: compare_from.simps [of in0 in1 o0 o1 i])
  next
    case True
    show ?thesis
    proof (cases "in0 ! i + in1 ! i = int32_at o0 i \<and> in0 ! i - in1 ! i = int32_at o1 i")
      case False
      with True show ?thesis
        by (auto simp: compare_from.simps [of in0 in1 o0 o1 i])
    next
      case ok: True
      with True "1.IH" have "compare_from in0 in1 o0 o1 i = Inr () \<longleftrightarrow>
        (\<forall>j. i + 1 \<le> j \<and> j < 16 \<longrightarrow>
         int32_at o0 j = in0 ! j + in1 ! j \<and> int32_at o1 j = in0 ! j - in1 ! j)"
        by (simp add: compare_from.simps [of in0 in1 o0 o1 i])
      also have "\<dots> \<longleftrightarrow> (\<forall>j. i \<le> j \<and> j < 16 \<longrightarrow>
         int32_at o0 j = in0 ! j + in1 ! j \<and> int32_at o1 j = in0 ! j - in1 ! j)"
      proof
        assume h: "\<forall>j. i + 1 \<le> j \<and> j < 16 \<longrightarrow>
          int32_at o0 j = in0 ! j + in1 ! j \<and> int32_at o1 j = in0 ! j - in1 ! j"
        show "\<forall>j. i \<le> j \<and> j < 16 \<longrightarrow>
          int32_at o0 j = in0 ! j + in1 ! j \<and> int32_at o1 j = in0 ! j - in1 ! j"
        proof (intro allI impI)
          fix j assume j: "i \<le> j \<and> j < 16"
          show "int32_at o0 j = in0 ! j + in1 ! j \<and> int32_at o1 j = in0 ! j - in1 ! j"
          proof (cases "j = i")
            case True
            with ok show ?thesis by simp
          next
            case False
            with j have "i + 1 \<le> j \<and> j < 16" by simp
            with h show ?thesis by blast
          qed
        qed
      next
        assume "\<forall>j. i \<le> j \<and> j < 16 \<longrightarrow>
          int32_at o0 j = in0 ! j + in1 ! j \<and> int32_at o1 j = in0 ! j - in1 ! j"
        then show "\<forall>j. i + 1 \<le> j \<and> j < 16 \<longrightarrow>
          int32_at o0 j = in0 ! j + in1 ! j \<and> int32_at o1 j = in0 ! j - in1 ! j"
          by simp
      qed
      finally show ?thesis .
    qed
  qed
qed

lemma compare_from_exit:
  "compare_from in0 in1 o0 o1 i \<noteq> Inr () \<Longrightarrow>
    \<exists>rep. compare_from in0 in1 o0 o1 i = Inl (Exit 1 rep)"
proof (induction in0 in1 o0 o1 i rule: compare_from.induct)
  case (1 in0 in1 o0 o1 i)
  then show ?case
    by (simp add: compare_from.simps [of in0 in1 o0 o1 i] split: if_splits)
qed

lemma main_validate_cases:
  obtains (shape0) e where "ValidateShapeAndDatatype ''OUTPUT0'' r = Inl e" "main_validate r = Inl e"
  | (shape1) e where "ValidateShapeAndDatatype ''OUTPUT0'' r = Inr ()"
      "ValidateShapeAndDatatype ''OUTPUT1'' r = Inl e" "main_validate r = Inl e"
  | (raw0) err where "raw_data r ''OUTPUT0'' = Inl err"
      "\<exists>rep. main_validate r = Inl (Exit 1 rep)"
  | (size0) o0 where "raw_data r ''OUTPUT0'' = Inr o0" "length o0 \<noteq> 64"
      "\<exists>rep. main_validate r = Inl (Exit 1 rep)"
  | (raw1) err where "raw_data r ''OUTPUT1'' = Inl err"
      "\<exists>rep. main_validate r = Inl (Exit 1 rep)"
  | (size1) o1 where "raw_data r ''OUTPUT1'' = Inr o1" "length o1 \<noteq> 64"
      "\<exists>rep. main_validate r = Inl (Exit 1 rep)"
  | (compare) o0 o1 where "ValidateShapeAndDatatype ''OUTPUT0'' r = Inr ()"
      "ValidateShapeAndDatatype ''OUTPUT1'' r = Inr ()"
      "raw_data r ''OUTPUT0'' = Inr o0" "length o0 = 64"
      "raw_data r ''OUTPUT1'' = Inr o1" "length o1 = 64"
      "main_validate r = compare_from input0_data input1_data o0 o1 0"
proof (cases "ValidateShapeAndDatatype ''OUTPUT0'' r")
  case (Inl e)
  then have "main_validate r = Inl e"
    by (simp add: main_validate_def)
  with Inl show ?thesis by (rule shape0)
next
  case v0: (Inr u0)
  show ?thesis
  proof (cases "ValidateShapeAndDatatype ''OUTPUT1'' r")
    case (Inl e)
    with v0 have "main_validate r = Inl e"
      by (simp add: main_validate_def)
    with v0 Inl show ?thesis by (simp add: shape1)
  next
    case v1: (Inr u1)
    show ?thesis
    proof (cases "raw_data r ''OUTPUT0''")
      case (Inl err)
      with v0 v1 have "\<exists>rep. main_validate r = Inl (Exit 1 rep)"
        by (simp add: main_validate_def fail_if_err_def)
      with Inl show ?thesis by (rule raw0)
    next
      case r0: (Inr o0)
      show ?thesis
      proof (cases "length o0 = 64")
        case False
        with v0 v1 r0 have "\<exists>rep. main_validate r = Inl (Exit 1 rep)"
          by (simp add: main_validate_def fail_if_err_def)
        with r0 False show ?thesis by (rule size0)
      next
        case l0: True
        show ?thesis
        proof (cases "raw_data r ''OUTPUT1''")
          case (Inl err)
          with v0 v1 r0 l0 have "\<exists>rep. main_validate r = Inl (Exit 1 rep)"
            by (simp add: main_validate_def fail_if_err_def)
          with Inl show ?thesis by (rule raw1)
        next
          case r1: (Inr o1)
          show ?thesis
          proof (cases "length o1 = 64")
            case False
            with v0 v1 r0 l0 r1 have "\<exists>rep. main_validate r = Inl (Exit 1 rep)"
              by (simp add: main_validate_def fail_if_err_def)
            with r1 False show ?thesis by (rule size1)
          next
            case True
            with v0 v1 r0 l0 r1
            have "main_validate r = compare_from input0_data input1_data o0 o1 0"
              by (simp add: main_validate_def fail_if_err_def)
            with v0 v1 r0 l0 r1 True show ?thesis by (simp add: compare)
          qed
        qed
      qed
    qed
  qed
qed

lemma main_validate_exit:
  assumes "main_validate r \<noteq> Inr ()"
  shows "\<exists>rep. main_validate r = Inl (Exit 1 rep)"
proof (cases r rule: main_validate_cases)
  case (shape0 e)
  with ValidateShapeAndDatatype_exit [of "''OUTPUT0''" r] show ?thesis by simp
next
  case (shape1 e)
  with ValidateShapeAndDatatype_exit [of "''OUTPUT1''" r] show ?thesis by simp
next
  case (compare o0 o1)
  with assms compare_from_exit [of input0_data input1_data o0 o1 0] show ?thesis by simp
qed simp_all

lemma main_validate_pass:
  "main_validate r = Inr () \<longleftrightarrow>
    ValidateShapeAndDatatype ''OUTPUT0'' r = Inr () \<and>
    ValidateShapeAndDatatype ''OUTPUT1'' r = Inr () \<and>
    (\<exists>o0 o1. raw_data r ''OUTPUT0'' = Inr o0 \<and> length o0 = 64 \<and>
       raw_data r ''OUTPUT1'' = Inr o1 \<and> length o1 = 64 \<and>
       compare_from input0_data input1_data o0 o1 0 = Inr ())"
  by (cases r rule: main_validate_cases) auto

text \<open>
  C9. For every result, the synchronous client reaches \<^verbatim>\<open>PASS : Infer\<close> exactly
  when \<^verbatim>\<open>OUTPUT0\<close> and \<^verbatim>\<open>OUTPUT1\<close> both have shape \<open>[1, 16]\<close> and datatype
  \<^verbatim>\<open>INT32\<close>, both raw buffers are 64 bytes long, and for every \<open>i\<close> below 16
  the \<open>i\<close>-th value of \<^verbatim>\<open>OUTPUT0\<close> is \<^verbatim>\<open>input0_data[i] + input1_data[i]\<close> and
  that of \<^verbatim>\<open>OUTPUT1\<close> is \<^verbatim>\<open>input0_data[i] - input1_data[i]\<close>; in every other
  case it exits with status 1.
\<close>

theorem pass_only_for_sum_and_difference:
  "(main_validate r = Inr () \<longleftrightarrow>
      shape r ''OUTPUT0'' = Inr [1, 16] \<and> datatype_of r ''OUTPUT0'' = Inr ''INT32'' \<and>
      shape r ''OUTPUT1'' = Inr [1, 16] \<and> datatype_of r ''OUTPUT1'' = Inr ''INT32'' \<and>
      (\<exists>output0_data output1_data.
         raw_data r ''OUTPUT0'' = Inr output0_data \<and> length output0_data = 64 \<and>
         raw_data r ''OUTPUT1'' = Inr output1_data \<and> length output1_data = 64 \<and>
         (\<forall>i<16. int32_at output0_data i = input0_data ! i + input1_data ! i \<and>
                  int32_at output1_data i = input0_data ! i - input1_data ! i)))
   \<and> (main_validate r \<noteq> Inr () \<longrightarrow> (\<exists>rep. main_validate r = Inl (Exit 1 rep)))"
proof -
  have "(\<forall>i<16. int32_at o0 i = input0_data ! i + input1_data ! i \<and>
             int32_at o1 i = input0_data ! i - input1_data ! i) \<longleftrightarrow>
        compare_from input0_data input1_data o0 o1 0 = Inr ()" for o0 o1
    by (simp add: compare_from_iff)
  then show ?thesis
    using main_validate_exit [of r]
    by (simp add: main_validate_pass ValidateShapeAndDatatype_iff conj_ac)
qed

theorem pass_only_for_sum_and_difference_witness:
  "main_validate
     (int32_outputs
        [151648, 199, 56569, 99492, 99795, 100718, 103955, 105485, 3838, 100432, 105183,
         102890, 100349, 108168, 3838, 35947]
        [151646, 197, 56567, 99490, 99793, 100716, 103953, 105483, 3836, 100430, 105181,
         102888, 100347, 108166, 3836, 35945]) = Inr ()
   \<and> main_validate
     (int32_outputs
        [151648, 199, 56569, 99492, 99795, 100718, 103955, 105485, 3838, 100432, 105183,
         102890, 100349, 108168, 3838, 35947]
        [151646, 197, 56567, 99490, 99793, 100716, 103953, 105483, 3836, 100430, 105181,
         102888, 100347, 108166, 3836, 35946]) = Inl (Exit 1 (Incorrect ''incorrect difference''))"
  using pass_only_for_sum_and_difference
    [of "int32_outputs
        [151648, 199, 56569, 99492, 99795, 100718, 103955, 105485, 3838, 100432, 105183,
         102890, 100349, 108168, 3838, 35947]
        [151646, 197, 56567, 99490, 99793, 100716, 103953, 105483, 3836, 100430, 105181,
         102888, 100347, 108166, 3836, 35945]"]
    pass_only_for_sum_and_difference
    [of "int32_outputs
        [151648, 199, 56569, 99492, 99795, 100718, 103955, 105485, 3838, 100432, 105183,
         102890, 100349, 108168, 3838, 35947]
        [151646, 197, 56567, 99490, 99793, 100716, 103953, 105483, 3836, 100430, 105181,
         102888, 100347, 108166, 3836, 35946]"]
  by (simp add: main_validate_def ValidateShapeAndDatatype_def fail_if_err_def
      int32_outputs_def int32_bytes_def int32_at_def input0_data_def input1_data_def
      compare_from.simps)

end
